theory Spec2Isabelle
  imports Complex_Main "HOL-Library.Word"
begin

section \<open>JavaScript strings and values\<close>

text \<open>
  A JavaScript string is a sequence of UTF-16 code units. \<open>length\<close>, \<open>substring\<close>,
  \<open>split\<close> and \<open>trim\<close> all work on code units, so the model keeps them: an ASCII
  literal is written \<open>js ''...''\<close>, any other character by its code unit (the em dash
  U+2014 is \<open>0x2014\<close>).
\<close>

type_synonym code_unit = "16 word"
type_synonym jsstring = "code_unit list"

definition js :: "string \<Rightarrow> jsstring" where
  "js s = map of_char s"

definition newline :: jsstring where
  "newline = [0x0A]"

definition dquote :: jsstring where
  "dquote = [0x22]"

text \<open>
  A value as it arrives in a parsed JSON body or on \<open>req\<close>: \<open>JUndefined\<close> is a missing
  field, \<open>JObj\<close> stands for any object or array (always truthy).
\<close>

datatype jsval = JUndefined | JNull | JBool bool | JNum real | JStr jsstring | JObj

fun truthy :: "jsval \<Rightarrow> bool" where
  "truthy JUndefined = False"
| "truthy JNull = False"
| "truthy (JBool b) = b"
| "truthy (JNum x) = (x \<noteq> 0)"
| "truthy (JStr s) = (s \<noteq> [])"
| "truthy JObj = True"

fun is_string :: "jsval \<Rightarrow> bool" where
  "is_string (JStr s) = True"
| "is_string v = False"

fun digit :: "nat \<Rightarrow> code_unit" where
  "digit d = of_nat (48 + d mod 10)"

text \<open>The decimal digits of a natural number, as a template literal renders a status code.\<close>

function show_nat :: "nat \<Rightarrow> jsstring" where
  "show_nat n = (if n < 10 then [digit n] else show_nat (n div 10) @ [digit n])"
  by pat_completeness auto
termination
  by (relation "measure id") auto

text \<open>\<open>Array.prototype.join\<close>.\<close>

fun join :: "'a list \<Rightarrow> 'a list list \<Rightarrow> 'a list" where
  "join sep [] = []"
| "join sep [x] = x"
| "join sep (x # y # ys) = x @ sep @ join sep (y # ys)"

section \<open>Retrieved documents and the context assembler (lib/retrieval.ts)\<close>

record RetrievedDocument =
  product_id :: jsstring
  source_type :: jsstring
  source_id :: "jsstring option"
  text_snippet :: jsstring
  similarity :: real
  metadata :: jsval

text \<open>
  \<open>buildContextText\<close>: the tag carries \<open>, ID: <source_id>\<close> only when \<open>doc.source_id\<close>
  is truthy, that is neither \<open>null\<close> nor the empty string.
\<close>

definition provenance_tag :: "RetrievedDocument \<Rightarrow> jsstring" where
  "provenance_tag doc =
     js ''[Product: '' @ product_id doc @ js '', Source: '' @ source_type doc @
     (case source_id doc of
        None \<Rightarrow> []
      | Some sid \<Rightarrow> (if sid \<noteq> [] then js '', ID: '' @ sid else [])) @
     js '']''"

definition buildContextText :: "RetrievedDocument list \<Rightarrow> jsstring" where
  "buildContextText docs =
     join (newline @ newline) (map (\<lambda>doc. provenance_tag doc @ newline @ text_snippet doc) docs)"

text \<open>The context build inlined in simple-chat.ts: the tag never carries an ID.\<close>

definition simple_provenance_tag :: "RetrievedDocument \<Rightarrow> jsstring" where
  "simple_provenance_tag doc =
     js ''[Product: '' @ product_id doc @ js '', Source: '' @ source_type doc @ js '']''"

definition simple_context_text :: "RetrievedDocument list \<Rightarrow> jsstring" where
  "simple_context_text docs =
     join (newline @ newline)
       (map (\<lambda>doc. simple_provenance_tag doc @ newline @ text_snippet doc) docs)"

text \<open>
  The format of the specification, for comparison: \<open>[Product: <id>, Source: <type>, ID: <id>]\<close>
  with the three fields always present.
\<close>

definition spec_provenance_tag :: "jsstring \<Rightarrow> jsstring \<Rightarrow> jsstring \<Rightarrow> jsstring" where
  "spec_provenance_tag pid stype sid =
     js ''[Product: '' @ pid @ js '', Source: '' @ stype @ js '', ID: '' @ sid @ js '']''"

definition plate_doc :: RetrievedDocument where
  "plate_doc = \<lparr> product_id = js ''p1'', source_type = js ''description'', source_id = None,
                 text_snippet = js ''Plate'', similarity = 0.9, metadata = JNull \<rparr>"

definition faq_doc :: RetrievedDocument where
  "faq_doc = \<lparr> product_id = js ''p2'', source_type = js ''faq'', source_id = Some (js ''faq_0''),
               text_snippet = js ''Q: Dishwasher safe?'', similarity = 0.8, metadata = JNull \<rparr>"

section \<open>External services and the call trace\<close>

text \<open>
  The embedding API, the vector-search RPC, the chat-completion API and the conversations
  table are outside the repository. A handler is run against \<open>services\<close>, which says how
  each of them answers, and returns with its response the trace of what it did: every
  call it made to a service and every \<open>console.error\<close> it logged, in order.
\<close>

datatype error = Error jsstring

datatype 'a http_outcome =
    FetchRejects jsstring
  | NotOk nat jsstring
  | OkInvalid jsstring
  | OkJson 'a

datatype rpc_outcome =
    RpcThrows jsstring
  | RpcError jsstring
  | RpcData "RetrievedDocument list option"

datatype insert_outcome = InsertThrows jsstring | InsertError jsstring | InsertOk

datatype chat_message = ChatMessage jsstring jsstring

datatype provenance_item =
    Citation jsstring jsstring "jsstring option" real
  | SnippetCitation jsstring jsstring jsstring real


datatype conversationData =
    RouteConversation jsval jsval jsstring "provenance_item list"
  | FixedConversation jsval jsval jsstring "RetrievedDocument list"
  | SimpleConversation jsval jsval jsstring "RetrievedDocument list"

record services =
  embeddings_api :: "jsval \<Rightarrow> real list http_outcome"
  match_embeddings :: "real list \<Rightarrow> nat \<Rightarrow> rpc_outcome"
  chat_api :: "jsstring \<Rightarrow> chat_message list \<Rightarrow> jsstring option http_outcome"
  conversations_insert :: "conversationData \<Rightarrow> insert_outcome"
  string_of :: "jsval \<Rightarrow> jsstring"

datatype event =
    EmbeddingCall jsval
  | VectorSearchCall "real list" nat
  | ChatCompletionCall jsstring "chat_message list"
  | PersistenceWrite conversationData
  | ConsoleError jsstring

type_synonym 'a effect = "event list \<times> (error + 'a)"

text \<open>
  A value interpolated into a template literal: a string as it is, anything else as the
  engine's \<open>String(v)\<close>, which \<open>services\<close> supplies.
\<close>

definition interpolate :: "services \<Rightarrow> jsval \<Rightarrow> jsstring" where
  "interpolate env v = (case v of JStr s \<Rightarrow> s | _ \<Rightarrow> string_of env v)"

subsection \<open>lib/openaiClient.ts\<close>

definition getEmbedding :: "services \<Rightarrow> jsval \<Rightarrow> real list effect" where
  "getEmbedding env text =
     (case embeddings_api env text of
        OkJson embedding \<Rightarrow> ([EmbeddingCall text], Inr embedding)
      | NotOk st errorText \<Rightarrow>
          ([EmbeddingCall text, ConsoleError (js ''Error getting embedding:'')],
           Inl (Error (js ''Failed to get embedding: '' @ js ''OpenAI embedding error: '' @
                       show_nat st @ js '' '' @ errorText)))
      | FetchRejects m \<Rightarrow>
          ([EmbeddingCall text, ConsoleError (js ''Error getting embedding:'')],
           Inl (Error (js ''Failed to get embedding: '' @ m)))
      | OkInvalid m \<Rightarrow>
          ([EmbeddingCall text, ConsoleError (js ''Error getting embedding:'')],
           Inl (Error (js ''Failed to get embedding: '' @ m))))"

definition chatCompletion :: "services \<Rightarrow> jsstring \<Rightarrow> chat_message list \<Rightarrow> jsstring effect" where
  "chatCompletion env systemPrompt messages =
     (case chat_api env systemPrompt messages of
        OkJson content \<Rightarrow>
          ([ChatCompletionCall systemPrompt messages],
           Inr (case content of None \<Rightarrow> [] | Some c \<Rightarrow> c))
      | NotOk st errorText \<Rightarrow>
          ([ChatCompletionCall systemPrompt messages,
            ConsoleError (js ''Error getting chat completion:'')],
           Inl (Error (js ''Failed to get chat completion: '' @ js ''OpenAI chat error: '' @
                       show_nat st @ js '' '' @ errorText)))
      | FetchRejects m \<Rightarrow>
          ([ChatCompletionCall systemPrompt messages,
            ConsoleError (js ''Error getting chat completion:'')],
           Inl (Error (js ''Failed to get chat completion: '' @ m)))
      | OkInvalid m \<Rightarrow>
          ([ChatCompletionCall systemPrompt messages,
            ConsoleError (js ''Error getting chat completion:'')],
           Inl (Error (js ''Failed to get chat completion: '' @ m))))"

subsection \<open>lib/supabaseClient.ts\<close>

definition saveConversation :: "services \<Rightarrow> conversationData \<Rightarrow> unit effect" where
  "saveConversation env conversationData =
     (case conversations_insert env conversationData of
        InsertOk \<Rightarrow> ([PersistenceWrite conversationData], Inr ())
      | InsertError m \<Rightarrow>
          ([PersistenceWrite conversationData, ConsoleError (js ''Error saving conversation:'')],
           Inl (Error (js ''Failed to save conversation: '' @ m)))
      | InsertThrows m \<Rightarrow>
          ([PersistenceWrite conversationData, ConsoleError (js ''Error saving conversation:'')],
           Inl (Error m)))"

subsection \<open>lib/retrieval.ts: retrieveRelevantDocs\<close>

definition retrieveRelevantDocs ::
  "services \<Rightarrow> jsval \<Rightarrow> nat \<Rightarrow> RetrievedDocument list effect" where
  "retrieveRelevantDocs env query topK =
     (case getEmbedding env query of
        (t, Inl (Error m)) \<Rightarrow>
          (t @ [ConsoleError (js ''Error retrieving relevant docs:'')],
           Inl (Error (js ''Failed to retrieve relevant documents: '' @ m)))
      | (t, Inr queryEmbedding) \<Rightarrow>
          (case match_embeddings env queryEmbedding topK of
             RpcData data \<Rightarrow>
               (t @ [VectorSearchCall queryEmbedding topK],
                Inr (case data of None \<Rightarrow> [] | Some docs \<Rightarrow> docs))
           | RpcError m \<Rightarrow>
               (t @ [VectorSearchCall queryEmbedding topK,
                     ConsoleError (js ''Error retrieving relevant docs:'')],
                Inl (Error (js ''Failed to retrieve relevant documents: '' @
                            js ''Vector search error: '' @ m)))
           | RpcThrows m \<Rightarrow>
               (t @ [VectorSearchCall queryEmbedding topK,
                     ConsoleError (js ''Error retrieving relevant docs:'')],
                Inl (Error (js ''Failed to retrieve relevant documents: '' @ m)))))"

section \<open>The chat handlers\<close>

datatype retrieved_docs = DocsArray "jsval list" | DocsCount nat

datatype reply =
    ChatReply jsstring "provenance_item list" retrieved_docs
  | ErrorReply jsstring "jsstring option"

record 'b response =
  status :: nat
  body :: 'b

definition escalation :: jsstring where
  "escalation = js ''I don't have that information '' @ [0x2014] @
                js '' would you like me to escalate to an admin?''"

definition internal_error :: "reply response" where
  "internal_error = \<lparr> status = 500,
     body = ErrorReply (js ''Internal server error'') (Some (js ''Failed to process chat request'')) \<rparr>"

definition user_prompt :: "jsstring \<Rightarrow> jsstring \<Rightarrow> jsstring" where
  "user_prompt contextText message =
     js ''Context:'' @ newline @ contextText @ newline @ newline @ js ''User question: '' @ message"

subsection \<open>routes/chat.js: POST /api/chat\<close>

text \<open>
  The system prompt is read from a file when the module loads; \<open>None\<close> is a file that
  cannot be read, for which the route has a built-in prompt.
\<close>

definition route_systemPrompt :: "jsstring option \<Rightarrow> jsstring" where
  "route_systemPrompt prompt_file =
     (case prompt_file of
        Some text \<Rightarrow> text
      | None \<Rightarrow>
          js ''You are RAK Porcelain Assistant. Only use information contained in the context field passed to you. Do not use any external knowledge. Always include provenance (product id, source type, and source id). If the context does not provide an answer, respond: ''
          @ dquote @ escalation @ dquote @ js '' Keep answers concise and helpful.'')"

definition citation :: "RetrievedDocument \<Rightarrow> provenance_item" where
  "citation doc = Citation (product_id doc) (source_type doc) (source_id doc) (similarity doc)"

definition chat_route_post ::
  "services \<Rightarrow> jsstring option \<Rightarrow> jsval \<Rightarrow> jsval \<Rightarrow> event list \<times> reply response" where
  "chat_route_post env prompt_file message sessionId =
     (if \<not> truthy message \<or> \<not> is_string message then
        ([], \<lparr> status = 400,
               body = ErrorReply (js ''Message is required and must be a string'') None \<rparr>)
      else if \<not> truthy sessionId \<or> \<not> is_string sessionId then
        ([], \<lparr> status = 400,
               body = ErrorReply (js ''Session ID is required and must be a string'') None \<rparr>)
      else
        (case retrieveRelevantDocs env message 5 of
           (t1, Inl e) \<Rightarrow> (t1 @ [ConsoleError (js ''Chat error:'')], internal_error)
         | (t1, Inr docs) \<Rightarrow>
             if length docs = 0 then
               (t1, \<lparr> status = 200, body = ChatReply escalation [] (DocsArray []) \<rparr>)
             else
               (case chatCompletion env (route_systemPrompt prompt_file)
                       [ChatMessage (js ''user'')
                          (user_prompt (buildContextText docs) (interpolate env message))] of
                  (t2, Inl e) \<Rightarrow> (t1 @ t2 @ [ConsoleError (js ''Chat error:'')], internal_error)
                | (t2, Inr answer) \<Rightarrow>
                    (case saveConversation env
                            (RouteConversation sessionId message answer (map citation docs)) of
                       (t3, Inl dbError) \<Rightarrow>
                         (t1 @ t2 @ t3 @ [ConsoleError (js ''Error saving conversation:'')],
                          \<lparr> status = 200,
                            body = ChatReply answer (map citation docs) (DocsCount (length docs)) \<rparr>)
                     | (t3, Inr saved) \<Rightarrow>
                         (t1 @ t2 @ t3,
                          \<lparr> status = 200,
                            body = ChatReply answer (map citation docs)
                                     (DocsCount (length docs)) \<rparr>)))))"

subsection \<open>server-fixed.ts: POST /api/chat\<close>

record process_env =
  OPENAI_API_KEY :: "jsstring option"
  OPENAI_EMBEDDING_MODEL :: "jsstring option"
  OPENAI_CHAT_MODEL :: "jsstring option"
  SUPABASE_URL :: "jsstring option"
  SUPABASE_SERVICE_ROLE_KEY :: "jsstring option"
  SUPABASE_ANON_KEY :: "jsstring option"

definition env_set :: "jsstring option \<Rightarrow> bool" where
  "env_set v = (case v of None \<Rightarrow> False | Some s \<Rightarrow> s \<noteq> [])"

text \<open>
  The handler imports lib/retrieval.js, lib/openaiClient.js and lib/supabaseClient.js when
  it runs; each of the two clients throws while loading unless its variables are set.
\<close>

definition modules_load :: "process_env \<Rightarrow> bool" where
  "modules_load penv =
     (env_set (SUPABASE_URL penv) \<and> env_set (SUPABASE_SERVICE_ROLE_KEY penv) \<and>
      env_set (SUPABASE_ANON_KEY penv) \<and> env_set (OPENAI_API_KEY penv) \<and>
      env_set (OPENAI_EMBEDDING_MODEL penv) \<and> env_set (OPENAI_CHAT_MODEL penv))"

definition setup_answer :: jsstring where
  "setup_answer = js ''I'm the RAK Porcelain AI Assistant! I'm currently being set up. Please configure your Supabase database and OpenAI API key to enable full functionality.''"

definition fixed_systemPrompt :: "jsstring option \<Rightarrow> jsstring" where
  "fixed_systemPrompt prompt_file =
     (case prompt_file of
        Some text \<Rightarrow> text
      | None \<Rightarrow>
          js ''You are RAK Porcelain Assistant. Only use information contained in the context field passed to you. Do not use any other knowledge. Cite the product id(s) and source when you reference facts. If the context does not provide an answer, respond: ''
          @ dquote @ escalation @ dquote @ js '' Keep answers concise and helpful.'')"

definition snippet_citation :: "RetrievedDocument \<Rightarrow> provenance_item" where
  "snippet_citation doc =
     SnippetCitation (product_id doc) (source_type doc)
       (take 100 (text_snippet doc) @ js ''...'') (similarity doc)"

definition server_fixed_post ::
  "services \<Rightarrow> process_env \<Rightarrow> jsstring option \<Rightarrow> jsval \<Rightarrow> jsval \<Rightarrow> event list \<times> reply response" where
  "server_fixed_post env penv prompt_file message sessionId =
     (if \<not> truthy message then
        ([], \<lparr> status = 400, body = ErrorReply (js ''Message is required'') None \<rparr>)
      else if \<not> env_set (OPENAI_API_KEY penv) \<or> \<not> env_set (SUPABASE_URL penv) then
        ([], \<lparr> status = 200, body = ChatReply setup_answer [] (DocsCount 0) \<rparr>)
      else if \<not> modules_load penv then
        ([ConsoleError (js ''Chat error:'')], internal_error)
      else
        (case retrieveRelevantDocs env message 5 of
           (t1, Inl e) \<Rightarrow> (t1 @ [ConsoleError (js ''Chat error:'')], internal_error)
         | (t1, Inr docs) \<Rightarrow>
             (case chatCompletion env (fixed_systemPrompt prompt_file)
                     [ChatMessage (js ''user'')
                        (user_prompt (buildContextText docs) (interpolate env message))] of
                (t2, Inl e) \<Rightarrow> (t1 @ t2 @ [ConsoleError (js ''Chat error:'')], internal_error)
              | (t2, Inr answer) \<Rightarrow>
                  (case (if truthy sessionId
                         then saveConversation env (FixedConversation sessionId message answer docs)
                         else ([], Inr ())) of
                     (t3, Inl e) \<Rightarrow>
                       (t1 @ t2 @ t3 @ [ConsoleError (js ''Chat error:'')], internal_error)
                   | (t3, Inr saved) \<Rightarrow>
                       (t1 @ t2 @ t3,
                        \<lparr> status = 200,
                          body = ChatReply answer (map snippet_citation docs)
                                   (DocsCount (length docs)) \<rparr>)))))"

subsection \<open>simple-chat.ts: POST /api/chat\<close>

text \<open>simple-chat.ts has its own \<open>getEmbedding\<close> and \<open>chatCompletion\<close>, which rethrow.\<close>

definition simple_getEmbedding :: "services \<Rightarrow> jsval \<Rightarrow> real list effect" where
  "simple_getEmbedding env text =
     (case embeddings_api env text of
        OkJson embedding \<Rightarrow> ([EmbeddingCall text], Inr embedding)
      | NotOk st errorText \<Rightarrow>
          ([EmbeddingCall text, ConsoleError (js ''Error generating embedding:'')],
           Inl (Error (js ''OpenAI API error: '' @ show_nat st @ js '' '' @ errorText)))
      | FetchRejects m \<Rightarrow>
          ([EmbeddingCall text, ConsoleError (js ''Error generating embedding:'')], Inl (Error m))
      | OkInvalid m \<Rightarrow>
          ([EmbeddingCall text, ConsoleError (js ''Error generating embedding:'')], Inl (Error m)))"

definition simple_chatCompletion ::
  "services \<Rightarrow> jsstring \<Rightarrow> chat_message list \<Rightarrow> jsstring effect" where
  "simple_chatCompletion env systemPrompt messages =
     (case chat_api env systemPrompt messages of
        OkJson content \<Rightarrow>
          ([ChatCompletionCall systemPrompt messages],
           Inr (case content of None \<Rightarrow> [] | Some c \<Rightarrow> c))
      | NotOk st errorText \<Rightarrow>
          ([ChatCompletionCall systemPrompt messages,
            ConsoleError (js ''Error in chat completion:'')],
           Inl (Error (js ''OpenAI API error: '' @ show_nat st @ js '' '' @ errorText)))
      | FetchRejects m \<Rightarrow>
          ([ChatCompletionCall systemPrompt messages,
            ConsoleError (js ''Error in chat completion:'')], Inl (Error m))
      | OkInvalid m \<Rightarrow>
          ([ChatCompletionCall systemPrompt messages,
            ConsoleError (js ''Error in chat completion:'')], Inl (Error m)))"

text \<open>
  The insert is awaited inside \<open>try\<close>/\<open>catch\<close> and its result is not read: an error the
  client returns is dropped silently, one it throws is logged.
\<close>

definition simple_insert :: "services \<Rightarrow> conversationData \<Rightarrow> event list" where
  "simple_insert env conversationData =
     (case conversations_insert env conversationData of
        InsertOk \<Rightarrow> [PersistenceWrite conversationData]
      | InsertError m \<Rightarrow> [PersistenceWrite conversationData]
      | InsertThrows m \<Rightarrow>
          [PersistenceWrite conversationData, ConsoleError (js ''Error saving conversation:'')])"

text \<open>
  simple-chat.ts creates its database client when the module loads, from \<open>SUPABASE_URL\<close>
  and \<open>SUPABASE_SERVICE_ROLE_KEY\<close>; \<open>createClient\<close> throws when either is missing, and
  the server never listens. \<open>None\<close> is that server: no request is ever answered.
\<close>

definition simple_chat_starts :: "process_env \<Rightarrow> bool" where
  "simple_chat_starts penv =
     (env_set (SUPABASE_URL penv) \<and> env_set (SUPABASE_SERVICE_ROLE_KEY penv))"

definition simple_chat_post ::
  "services \<Rightarrow> process_env \<Rightarrow> jsstring option \<Rightarrow> jsval \<Rightarrow> jsval \<Rightarrow>
   (event list \<times> reply response) option" where
  "simple_chat_post env penv prompt_file message sessionId =
     (if \<not> simple_chat_starts penv then None
      else if \<not> truthy message then
        Some ([], \<lparr> status = 400, body = ErrorReply (js ''Message is required'') None \<rparr>)
      else if \<not> env_set (OPENAI_API_KEY penv) \<or> \<not> env_set (SUPABASE_URL penv) then
        Some ([], \<lparr> status = 200, body = ChatReply setup_answer [] (DocsCount 0) \<rparr>)
      else
        Some
        (case simple_getEmbedding env message of
           (t1, Inl e) \<Rightarrow> (t1 @ [ConsoleError (js ''Chat error:'')], internal_error)
         | (t1, Inr queryEmbedding) \<Rightarrow>
             (case match_embeddings env queryEmbedding 5 of
                RpcThrows m \<Rightarrow>
                  (t1 @ [VectorSearchCall queryEmbedding 5, ConsoleError (js ''Chat error:'')],
                   internal_error)
              | RpcError m \<Rightarrow>
                  (t1 @ [VectorSearchCall queryEmbedding 5, ConsoleError (js ''Chat error:'')],
                   internal_error)
              | RpcData None \<Rightarrow>
                  (t1 @ [VectorSearchCall queryEmbedding 5, ConsoleError (js ''Chat error:'')],
                   internal_error)
              | RpcData (Some docs) \<Rightarrow>
                  (case simple_chatCompletion env (fixed_systemPrompt prompt_file)
                          [ChatMessage (js ''user'')
                             (user_prompt (simple_context_text docs) (interpolate env message))] of
                     (t2, Inl e) \<Rightarrow>
                       (t1 @ [VectorSearchCall queryEmbedding 5] @ t2 @
                        [ConsoleError (js ''Chat error:'')], internal_error)
                   | (t2, Inr answer) \<Rightarrow>
                       (t1 @ [VectorSearchCall queryEmbedding 5] @ t2 @
                        (if truthy sessionId
                         then simple_insert env (SimpleConversation sessionId message answer docs)
                         else []),
                        \<lparr> status = 200,
                          body = ChatReply answer (map snippet_citation docs)
                                   (DocsCount (length docs)) \<rparr>)))))"

section \<open>The messages router (routes/messages.ts)\<close>

text \<open>
  The router talks to two tables of the hosted database. The model keeps them as lists of
  rows; \<open>table_client\<close> says how the database answers one request: whether the ownership
  lookup or the select comes back with an error, and which \<open>id\<close> and \<open>created_at\<close> the
  database assigns to an inserted row (or the error it reports instead, in which case no
  row is stored). Identifiers are compared as text: a string as it is, any other value as
  the text \<open>String\<close> the client library puts into the filter.
\<close>

record conversation_row =
  conv_id :: jsstring
  user_id :: jsstring

record message_row =
  msg_id :: jsstring
  conversation_id :: jsstring
  role :: jsval
  content :: jsval
  created_at :: nat

record database =
  conversations :: "conversation_row list"
  messages :: "message_row list"

datatype insert_answer = InsertFailed jsstring | Inserted jsstring nat

record table_client =
  lookup_fails :: bool
  select_error :: "jsstring option"
  insert_answer :: insert_answer

datatype message_view = MessageView jsstring jsval jsval nat

fun view_role :: "message_view \<Rightarrow> jsval" where
  "view_role (MessageView i r c t) = r"

fun view_content :: "message_view \<Rightarrow> jsval" where
  "view_content (MessageView i r c t) = c"

datatype messages_reply =
    MessagesError jsstring
  | MessageList "message_view list"
  | MessageSent jsstring message_view

definition filter_text :: "(jsval \<Rightarrow> jsstring) \<Rightarrow> jsval \<Rightarrow> jsstring" where
  "filter_text String v = (case v of JStr s \<Rightarrow> s | _ \<Rightarrow> String v)"

text \<open>
  \<open>.from('conversations').select('id').eq('id', c).eq('user_id', u).single()\<close>: the row when
  exactly one matches, \<open>null\<close> otherwise or when the lookup fails.
\<close>

definition conversationCheck ::
  "table_client \<Rightarrow> database \<Rightarrow> jsstring \<Rightarrow> jsstring \<Rightarrow> jsstring option" where
  "conversationCheck client db conversationId userId =
     (if lookup_fails client then None
      else (case filter (\<lambda>row. conv_id row = conversationId \<and> user_id row = userId)
                   (conversations db) of
              [row] \<Rightarrow> Some (conv_id row)
            | _ \<Rightarrow> None))"

definition message_view :: "message_row \<Rightarrow> message_view" where
  "message_view row = MessageView (msg_id row) (role row) (content row) (created_at row)"

text \<open>GET /conversation/:conversationId\<close>

definition get_conversation_messages ::
  "(jsval \<Rightarrow> jsstring) \<Rightarrow> table_client \<Rightarrow> database \<Rightarrow> jsval \<Rightarrow> jsstring \<Rightarrow>
   messages_reply response" where
  "get_conversation_messages String client db userId conversationId =
     (if \<not> truthy userId then
        \<lparr> status = 401, body = MessagesError (js ''Unauthorized'') \<rparr>
      else
        (case conversationCheck client db conversationId (filter_text String userId) of
           None \<Rightarrow> \<lparr> status = 404, body = MessagesError (js ''Conversation not found'') \<rparr>
         | Some c \<Rightarrow>
             (case select_error client of
                Some m \<Rightarrow> \<lparr> status = 500, body = MessagesError (js ''Internal server error'') \<rparr>
              | None \<Rightarrow>
                  \<lparr> status = 200,
                    body = MessageList
                      (map message_view
                         (sort_key created_at
                            (filter (\<lambda>row. conversation_id row = conversationId)
                               (messages db)))) \<rparr>)))"

definition valid_roles :: "jsval list" where
  "valid_roles = [JStr (js ''user''), JStr (js ''assistant''), JStr (js ''system'')]"

text \<open>POST /: the response and the database after the request.\<close>

definition send_message ::
  "(jsval \<Rightarrow> jsstring) \<Rightarrow> table_client \<Rightarrow> database \<Rightarrow> jsval \<Rightarrow> jsval \<Rightarrow> jsval \<Rightarrow> jsval \<Rightarrow>
   messages_reply response \<times> database" where
  "send_message String client db userId conversationId role_in content_in =
     (if \<not> truthy userId then
        (\<lparr> status = 401, body = MessagesError (js ''Unauthorized'') \<rparr>, db)
      else if \<not> truthy conversationId \<or> \<not> truthy role_in \<or> \<not> truthy content_in then
        (\<lparr> status = 400,
           body = MessagesError (js ''Conversation ID, role, and content are required'') \<rparr>, db)
      else if role_in \<notin> set valid_roles then
        (\<lparr> status = 400,
           body = MessagesError (js ''Invalid role. Must be user, assistant, or system'') \<rparr>, db)
      else
        (case conversationCheck client db (filter_text String conversationId)
                (filter_text String userId) of
           None \<Rightarrow> (\<lparr> status = 404, body = MessagesError (js ''Conversation not found'') \<rparr>, db)
         | Some c \<Rightarrow>
             (case insert_answer client of
                InsertFailed m \<Rightarrow>
                  (\<lparr> status = 500, body = MessagesError (js ''Internal server error'') \<rparr>, db)
              | Inserted new_id now \<Rightarrow>
                  (\<lparr> status = 201,
                     body = MessageSent (js ''Message sent successfully'')
                              (MessageView new_id role_in content_in now) \<rparr>,
                   db \<lparr> messages := messages db @
                          [\<lparr> msg_id = new_id,
                             conversation_id = filter_text String conversationId,
                             role = role_in, content = content_in, created_at = now \<rparr>] \<rparr>))))"

section \<open>Product search (lib/retrieval.ts: searchProducts)\<close>

datatype relevant_snippet = RelevantSnippet jsstring jsstring real

fun snippet_similarity :: "relevant_snippet \<Rightarrow> real" where
  "snippet_similarity (RelevantSnippet stype text sim) = sim"

record product_match =
  match_product_id :: jsstring
  max_similarity :: real
  relevant_snippets :: "relevant_snippet list"

text \<open>
  A JavaScript \<open>Map\<close> keeps its keys in the order of their first insertion; it is an
  association list here, and \<open>map_set\<close> on a key that is present replaces the value in
  place.
\<close>

type_synonym ('k, 'v) jsmap = "('k \<times> 'v) list"

definition map_has :: "('k, 'v) jsmap \<Rightarrow> 'k \<Rightarrow> bool" where
  "map_has m k = (map_of m k \<noteq> None)"

definition map_get :: "('k, 'v) jsmap \<Rightarrow> 'k \<Rightarrow> 'v option" where
  "map_get m k = map_of m k"

fun map_set :: "('k, 'v) jsmap \<Rightarrow> 'k \<Rightarrow> 'v \<Rightarrow> ('k, 'v) jsmap" where
  "map_set [] k v = [(k, v)]"
| "map_set ((k', v') # m) k v = (if k' = k then (k, v) # m else (k', v') # map_set m k v)"

definition map_values :: "('k, 'v) jsmap \<Rightarrow> 'v list" where
  "map_values m = map snd m"

text \<open>
  One round of the loop over the documents. The product object is shared with the map, so
  pushing the snippet and raising \<open>max_similarity\<close> change the entry of the map.
\<close>

definition group_step ::
  "(jsstring, product_match) jsmap \<Rightarrow> RetrievedDocument \<Rightarrow> (jsstring, product_match) jsmap" where
  "group_step productMap doc =
     (let productMap1 =
            (if \<not> map_has productMap (product_id doc)
             then map_set productMap (product_id doc)
                    \<lparr> match_product_id = product_id doc, max_similarity = similarity doc,
                      relevant_snippets = [] \<rparr>
             else productMap)
      in (case map_get productMap1 (product_id doc) of
            None \<Rightarrow> productMap1
          | Some product \<Rightarrow>
              (let pushed = product \<lparr> relevant_snippets := relevant_snippets product @
                     [RelevantSnippet (source_type doc) (text_snippet doc) (similarity doc)] \<rparr>
               in map_set productMap1 (product_id doc)
                    (if similarity doc > max_similarity pushed
                     then pushed \<lparr> max_similarity := similarity doc \<rparr>
                     else pushed))))"

definition group_products :: "RetrievedDocument list \<Rightarrow> (jsstring, product_match) jsmap" where
  "group_products docs = foldl group_step [] docs"

text \<open>
  \<open>Array.prototype.sort\<close> with a comparator is stable: \<open>a\<close> stays before \<open>b\<close> unless the
  comparator puts \<open>b\<close> first. An insertion sort that inserts from the right has this result.
\<close>

fun insort_cmp :: "('a \<Rightarrow> 'a \<Rightarrow> real) \<Rightarrow> 'a \<Rightarrow> 'a list \<Rightarrow> 'a list" where
  "insort_cmp cmp x [] = [x]"
| "insort_cmp cmp x (y # ys) = (if cmp x y \<le> 0 then x # y # ys else y # insort_cmp cmp x ys)"

definition js_sort :: "('a \<Rightarrow> 'a \<Rightarrow> real) \<Rightarrow> 'a list \<Rightarrow> 'a list" where
  "js_sort cmp xs = foldr (insort_cmp cmp) xs []"

definition searchProducts :: "services \<Rightarrow> jsstring \<Rightarrow> nat \<Rightarrow> product_match list effect" where
  "searchProducts env query topK =
     (case retrieveRelevantDocs env (JStr query) topK of
        (t, Inl e) \<Rightarrow> (t @ [ConsoleError (js ''Error searching products:'')], Inl e)
      | (t, Inr docs) \<Rightarrow>
          (t, Inr (js_sort (\<lambda>a b. max_similarity b - max_similarity a)
                     (map_values (group_products docs)))))"

section \<open>Ingestion: chunkText\<close>

definition space :: code_unit where
  "space = 0x20"

text \<open>What \<open>String.prototype.trim\<close> strips: ECMAScript's WhiteSpace and LineTerminator.\<close>

definition is_whitespace :: "code_unit \<Rightarrow> bool" where
  "is_whitespace c =
     (c \<in> {0x09, 0x0A, 0x0B, 0x0C, 0x0D, 0x20, 0xA0, 0x1680, 0x2028, 0x2029, 0x202F, 0x205F,
            0x3000, 0xFEFF}
      \<or> (0x2000 \<le> c \<and> c \<le> 0x200A))"

definition trim :: "jsstring \<Rightarrow> jsstring" where
  "trim s = rev (dropWhile is_whitespace (rev (dropWhile is_whitespace s)))"

text \<open>\<open>text.split(sep)\<close> for a separator of one code unit; the result is never empty.\<close>

fun split_on :: "'a \<Rightarrow> 'a list \<Rightarrow> 'a list list" where
  "split_on sep [] = [[]]"
| "split_on sep (c # cs) =
     (if c = sep then [] # split_on sep cs
      else (case split_on sep cs of w # ws \<Rightarrow> (c # w) # ws | [] \<Rightarrow> [[c]]))"

text \<open>\<open>Array.prototype.slice(start, finish)\<close>: a negative index counts from the end.\<close>

definition slice_js :: "'a list \<Rightarrow> int \<Rightarrow> int \<Rightarrow> 'a list" where
  "slice_js xs start finish =
     (let len = int (length xs);
          k = (if start < 0 then max (len + start) 0 else min start len);
          final = (if finish < 0 then max (len + finish) 0 else min finish len)
      in take (nat (final - k)) (drop (nat k) xs))"

text \<open>
  The \<open>for\<close> loop of \<open>chunkText\<close>, with \<open>i\<close> and \<open>chunks\<close> as its state. The parameters
  are integers, as every call in the repository passes them (the defaults 500 and 100).
  The loop does not end when \<open>chunkSize - overlap\<close> is not positive, so its result is an
  option: \<open>None\<close> is a run that never returns.
\<close>

partial_function (option) chunk_loop ::
  "jsstring list \<Rightarrow> int \<Rightarrow> int \<Rightarrow> int \<Rightarrow> jsstring list \<Rightarrow> jsstring list option" where
  "chunk_loop words chunkSize overlap i chunks =
     (if i < int (length words) then
        chunk_loop words chunkSize overlap (i + (chunkSize - overlap))
          (if length (trim (join [space] (slice_js words i (i + chunkSize)))) > 0
           then chunks @ [trim (join [space] (slice_js words i (i + chunkSize)))]
           else chunks)
      else Some chunks)"

declare chunk_loop.simps [code]

definition chunkText :: "jsstring \<Rightarrow> int \<Rightarrow> int \<Rightarrow> jsstring list option" where
  "chunkText text chunkSize overlap = chunk_loop (split_on space text) chunkSize overlap 0 []"

text \<open>
  A word \<open>w'\<close> is \<open>w\<close> with whitespace stripped from its ends: what \<open>trim\<close> can do to the
  first and the last word of a chunk.
\<close>

definition stripped_of :: "jsstring \<Rightarrow> jsstring \<Rightarrow> bool" where
  "stripped_of w' w =
     (w' \<in> {w, dropWhile is_whitespace w, rev (dropWhile is_whitespace (rev w)), trim w})"

text \<open>
  The words of a text as a reader counts them: the maximal runs of characters that are not
  whitespace.
\<close>

fun split_when :: "('a \<Rightarrow> bool) \<Rightarrow> 'a list \<Rightarrow> 'a list list" where
  "split_when P [] = [[]]"
| "split_when P (c # cs) =
     (if P c then [] # split_when P cs
      else (case split_when P cs of w # ws \<Rightarrow> (c # w) # ws | [] \<Rightarrow> [[c]]))"

definition tokens :: "jsstring \<Rightarrow> jsstring list" where
  "tokens s = filter (\<lambda>w. w \<noteq> []) (split_when is_whitespace s)"

section \<open>Reading a trace; sample inputs\<close>

fun is_embedding_call :: "event \<Rightarrow> bool" where
  "is_embedding_call (EmbeddingCall text) = True"
| "is_embedding_call e = False"

fun is_search_call :: "event \<Rightarrow> bool" where
  "is_search_call (VectorSearchCall v k) = True"
| "is_search_call e = False"

fun is_completion_call :: "event \<Rightarrow> bool" where
  "is_completion_call (ChatCompletionCall p ms) = True"
| "is_completion_call e = False"

fun is_persistence_write :: "event \<Rightarrow> bool" where
  "is_persistence_write (PersistenceWrite d) = True"
| "is_persistence_write e = False"

definition calls :: "(event \<Rightarrow> bool) \<Rightarrow> event list \<Rightarrow> nat" where
  "calls kind trace = length (filter kind trace)"

text \<open>The calls of a trace, counted: embedding, vector search, chat completion, write.\<close>

definition call_counts :: "event list \<Rightarrow> nat \<times> nat \<times> nat \<times> nat" where
  "call_counts trace =
     (calls is_embedding_call trace, calls is_search_call trace,
      calls is_completion_call trace, calls is_persistence_write trace)"

text \<open>Which of the three calls of the chat route fails, given how the services answer.\<close>

definition embedding_fails :: "services \<Rightarrow> jsval \<Rightarrow> bool" where
  "embedding_fails env message =
     (case embeddings_api env message of OkJson v \<Rightarrow> False | _ \<Rightarrow> True)"

definition search_fails :: "services \<Rightarrow> jsval \<Rightarrow> bool" where
  "search_fails env message =
     (case embeddings_api env message of
        OkJson v \<Rightarrow> (case match_embeddings env v 5 of RpcData d \<Rightarrow> False | _ \<Rightarrow> True)
      | _ \<Rightarrow> False)"

definition completion_fails :: "services \<Rightarrow> jsstring \<Rightarrow> chat_message list \<Rightarrow> bool" where
  "completion_fails env systemPrompt userMessages =
     (case chat_api env systemPrompt userMessages of OkJson c \<Rightarrow> False | _ \<Rightarrow> True)"

definition route_completion_fails :: "services \<Rightarrow> jsstring option \<Rightarrow> jsval \<Rightarrow> bool" where
  "route_completion_fails env prompt_file message =
     (case snd (retrieveRelevantDocs env message 5) of
        Inl e \<Rightarrow> False
      | Inr docs \<Rightarrow>
          docs \<noteq> [] \<and>
          completion_fails env (route_systemPrompt prompt_file)
            [ChatMessage (js ''user'')
               (user_prompt (buildContextText docs) (interpolate env message))])"

text \<open>
  Services that all answer: the vector search returns \<open>docs\<close>, the chat completion
  returns one fixed sentence, the insert succeeds.
\<close>

definition demo_services :: "RetrievedDocument list \<Rightarrow> services" where
  "demo_services docs =
     \<lparr> embeddings_api = (\<lambda>text. OkJson [0.1, 0.2]),
       match_embeddings = (\<lambda>v k. RpcData (Some docs)),
       chat_api = (\<lambda>p ms. OkJson (Some (js ''Our plates are dishwasher safe.''))),
       conversations_insert = (\<lambda>d. InsertOk),
       string_of = (\<lambda>v. js ''[object Object]'') \<rparr>"

definition configured :: process_env where
  "configured =
     \<lparr> OPENAI_API_KEY = Some (js ''sk-test''),
       OPENAI_EMBEDDING_MODEL = Some (js ''text-embedding-3-small''),
       OPENAI_CHAT_MODEL = Some (js ''gpt-4o-mini''),
       SUPABASE_URL = Some (js ''https://db.example''),
       SUPABASE_SERVICE_ROLE_KEY = Some (js ''service-key''),
       SUPABASE_ANON_KEY = Some (js ''anon-key'') \<rparr>"

definition hello :: jsval where
  "hello = JStr (js ''Hello'')"

definition session1 :: jsval where
  "session1 = JStr (js ''s1'')"

definition dinner_query :: jsval where
  "dinner_query = JStr (js ''Tell me about your dinner sets'')"

text \<open>The same services with a failing conversations table, embedding API or chat API.\<close>

definition store_down :: "RetrievedDocument list \<Rightarrow> services" where
  "store_down docs =
     (demo_services docs) \<lparr> conversations_insert := (\<lambda>d. InsertError (js ''connection refused'')) \<rparr>"

definition embeddings_down :: "RetrievedDocument list \<Rightarrow> services" where
  "embeddings_down docs =
     (demo_services docs) \<lparr> embeddings_api := (\<lambda>text. NotOk 503 (js ''unavailable'')) \<rparr>"


text \<open>A database with one conversation, owned by user \<open>u1\<close>, and a client that answers.\<close>

definition demo_db :: database where
  "demo_db = \<lparr> conversations = [\<lparr> conv_id = js ''c1'', user_id = js ''u1'' \<rparr>], messages = [] \<rparr>"

definition demo_client :: table_client where
  "demo_client = \<lparr> lookup_fails = False, select_error = None,
                   insert_answer = Inserted (js ''m1'') 1000 \<rparr>"

definition demo_String :: "jsval \<Rightarrow> jsstring" where
  "demo_String v = js ''[object Object]''"

text \<open>
  What \<open>searchProducts\<close> is expected to hold for a product: the snippets of the documents
  of that product, in the order of retrieval, and the largest of their similarities.
\<close>

definition snippet_of :: "RetrievedDocument \<Rightarrow> relevant_snippet" where
  "snippet_of doc = RelevantSnippet (source_type doc) (text_snippet doc) (similarity doc)"

definition docs_of :: "RetrievedDocument list \<Rightarrow> jsstring \<Rightarrow> RetrievedDocument list" where
  "docs_of docs pid = filter (\<lambda>d. product_id d = pid) docs"

definition grouped :: "RetrievedDocument list \<Rightarrow> jsstring \<Rightarrow> product_match" where
  "grouped docs pid =
     \<lparr> match_product_id = pid,
       max_similarity = Max (set (map similarity (docs_of docs pid))),
       relevant_snippets = map snippet_of (docs_of docs pid) \<rparr>"

definition spec_doc :: RetrievedDocument where
  "spec_doc = \<lparr> product_id = js ''p2'', source_type = js ''spec'', source_id = None,
                text_snippet = js ''Diameter: 27 cm'', similarity = 0.95, metadata = JNull \<rparr>"

section \<open>The context assembler\<close>

text \<open>
  C2, as stated, fails: a document whose \<open>source_id\<close> is \<open>null\<close> is rendered with the tag
  \<open>[Product: p1, Source: description]\<close>, which is not of the form
  \<open>[Product: <id>, Source: <type>, ID: <id>]\<close> for any ID.
\<close>

theorem buildContextText_no_id_counterexample:
  "buildContextText [plate_doc] = js ''[Product: p1, Source: description]'' @ newline @ js ''Plate''
   \<and> \<not> (\<exists>sid. buildContextText [plate_doc] =
            spec_provenance_tag (js ''p1'') (js ''description'') sid @ newline @ js ''Plate'')"
  by (simp add: buildContextText_def provenance_tag_def plate_doc_def spec_provenance_tag_def
      js_def newline_def)

text \<open>
  C2, amended: every document is rendered as its tag, a line break and its text snippet, the
  renderings joined by blank lines (two line breaks); the tag is
  \<open>[Product: <product_id>, Source: <source_type>, ID: <source_id>]\<close> when the document has a
  non-empty \<open>source_id\<close>, and \<open>[Product: <product_id>, Source: <source_type>]\<close> when the
  \<open>source_id\<close> is \<open>null\<close> or empty.
\<close>

theorem buildContextText_format:
  "buildContextText docs =
     join (newline @ newline)
       (map (\<lambda>doc.
          (if source_id doc = None \<or> source_id doc = Some []
           then js ''[Product: '' @ product_id doc @ js '', Source: '' @ source_type doc @ js '']''
           else spec_provenance_tag (product_id doc) (source_type doc) (the (source_id doc)))
          @ newline @ text_snippet doc) docs)"
proof -
  have "provenance_tag doc =
          (if source_id doc = None \<or> source_id doc = Some []
           then js ''[Product: '' @ product_id doc @ js '', Source: '' @ source_type doc @ js '']''
           else spec_provenance_tag (product_id doc) (source_type doc) (the (source_id doc)))"
    for doc
    by (simp add: provenance_tag_def spec_provenance_tag_def split: option.splits)
  then show ?thesis
    by (simp add: buildContextText_def)
qed

theorem buildContextText_format_witness:
  "buildContextText [plate_doc, faq_doc] =
     js ''[Product: p1, Source: description]'' @ newline @ js ''Plate'' @ newline @ newline @
     js ''[Product: p2, Source: faq, ID: faq_0]'' @ newline @ js ''Q: Dishwasher safe?''"
  using buildContextText_format [of "[plate_doc, faq_doc]"]
  by (simp add: spec_provenance_tag_def plate_doc_def faq_doc_def js_def newline_def)

text \<open>The context built in simple-chat.ts drops the ID even when the document has one.\<close>

lemma simple_context_text_drops_id:
  "simple_context_text [faq_doc] =
     js ''[Product: p2, Source: faq]'' @ newline @ js ''Q: Dishwasher safe?''"
  by (simp add: simple_context_text_def simple_provenance_tag_def faq_doc_def js_def)

section \<open>The retrieval adapter and its callers\<close>

lemma js_eq_Nil [simp]: "js s = [] \<longleftrightarrow> s = []"
  by (simp add: js_def)

lemma demo_fields:
  "embeddings_api (demo_services docs) = (\<lambda>text. OkJson [0.1, 0.2])"
  "match_embeddings (demo_services docs) = (\<lambda>v k. RpcData (Some docs))"
  "chat_api (demo_services docs) = (\<lambda>p ms. OkJson (Some (js ''Our plates are dishwasher safe.'')))"
  "conversations_insert (demo_services docs) = (\<lambda>d. InsertOk)"
  by (simp_all add: demo_services_def)

lemma demo_inputs [simp]:
  "truthy hello" "is_string hello" "truthy session1" "is_string session1"
  "truthy dinner_query" "is_string dinner_query"
  "env_set (OPENAI_API_KEY configured)" "env_set (SUPABASE_URL configured)"
  "modules_load configured"
  by (simp_all add: hello_def session1_def dinner_query_def configured_def env_set_def
      modules_load_def)

lemma retrieve_demo:
  "retrieveRelevantDocs (demo_services docs) q k =
     ([EmbeddingCall q, VectorSearchCall [0.1, 0.2] k], Inr docs)"
  by (simp add: retrieveRelevantDocs_def getEmbedding_def demo_fields)

lemma retrieve_fails_iff:
  "(\<exists>e. snd (retrieveRelevantDocs env message 5) = Inl e) \<longleftrightarrow>
   embedding_fails env message \<or> search_fails env message"
  by (auto simp add: retrieveRelevantDocs_def getEmbedding_def embedding_fails_def search_fails_def
      split: http_outcome.splits rpc_outcome.splits)

subsection \<open>Counting calls\<close>

lemma calls_Nil [simp]: "calls kind [] = 0"
  by (simp add: calls_def)

lemma calls_Cons [simp]: "calls kind (e # trace) = (if kind e then 1 else 0) + calls kind trace"
  by (simp add: calls_def)

lemma calls_append [simp]: "calls kind (xs @ ys) = calls kind xs + calls kind ys"
  by (simp add: calls_def)

lemma getEmbedding_calls [simp]:
  "calls is_embedding_call (fst (getEmbedding env q)) = 1"
  "calls is_search_call (fst (getEmbedding env q)) = 0"
  "calls is_completion_call (fst (getEmbedding env q)) = 0"
  "calls is_persistence_write (fst (getEmbedding env q)) = 0"
  by (simp_all add: getEmbedding_def split: http_outcome.splits)

lemma chatCompletion_calls [simp]:
  "calls is_embedding_call (fst (chatCompletion env p ms)) = 0"
  "calls is_search_call (fst (chatCompletion env p ms)) = 0"
  "calls is_completion_call (fst (chatCompletion env p ms)) = 1"
  "calls is_persistence_write (fst (chatCompletion env p ms)) = 0"
  by (simp_all add: chatCompletion_def split: http_outcome.splits)

lemma saveConversation_calls [simp]:
  "calls is_embedding_call (fst (saveConversation env d)) = 0"
  "calls is_search_call (fst (saveConversation env d)) = 0"
  "calls is_completion_call (fst (saveConversation env d)) = 0"
  "calls is_persistence_write (fst (saveConversation env d)) = 1"
  by (simp_all add: saveConversation_def split: insert_outcome.splits)

lemma retrieveRelevantDocs_calls [simp]:
  "calls is_embedding_call (fst (retrieveRelevantDocs env q k)) = 1"
  "calls is_search_call (fst (retrieveRelevantDocs env q k)) \<le> Suc 0"
  "calls is_completion_call (fst (retrieveRelevantDocs env q k)) = 0"
  "calls is_persistence_write (fst (retrieveRelevantDocs env q k)) = 0"
  by (simp_all add: retrieveRelevantDocs_def case_prod_beta
      split: sum.splits error.splits rpc_outcome.splits)

section \<open>POST /api/chat\<close>

subsection \<open>Empty retrieval\<close>

text \<open>
  In routes/chat.js the handler itself answers an empty retrieval: for every request with
  a non-empty string message and sessionId for which the retrieval step returns an empty
  list, the response is 200 with the fixed escalation string as answer, an empty provenance
  list and an empty \<open>retrieved_docs\<close> list; the handler does nothing after the retrieval
  (no chat-completion call, no write).
\<close>

theorem chat_route_escalation_on_empty_retrieval:
  assumes "truthy message" "is_string message" "truthy sessionId" "is_string sessionId"
    and "snd (retrieveRelevantDocs env message 5) = Inr []"
  shows "chat_route_post env prompt_file message sessionId =
           (fst (retrieveRelevantDocs env message 5),
            \<lparr> status = 200, body = ChatReply escalation [] (DocsArray []) \<rparr>)"
  using assms by (simp add: chat_route_post_def case_prod_beta)

theorem chat_route_escalation_on_empty_retrieval_witness:
  "chat_route_post (demo_services []) None hello session1 =
     ([EmbeddingCall hello, VectorSearchCall [0.1, 0.2] 5],
      \<lparr> status = 200, body = ChatReply escalation [] (DocsArray []) \<rparr>)"
  using chat_route_escalation_on_empty_retrieval [of hello session1 "demo_services []" None]
  by (simp add: retrieve_demo)

text \<open>
  The handler of server-fixed.ts, on an empty retrieval: the answer is the text the chat
  completion returns for an empty context; only the provenance list is sure to be empty.
\<close>

lemma server_fixed_empty_retrieval:
  assumes "truthy message" "modules_load penv"
    and "snd (retrieveRelevantDocs env message 5) = Inr []"
    and "snd (chatCompletion env (fixed_systemPrompt prompt_file)
               [ChatMessage (js ''user'')
                  (user_prompt (buildContextText []) (interpolate env message))]) = Inr answer"
    and "\<not> truthy sessionId \<or>
         conversations_insert env (FixedConversation sessionId message answer []) = InsertOk"
  shows "snd (server_fixed_post env penv prompt_file message sessionId) =
           \<lparr> status = 200, body = ChatReply answer [] (DocsCount 0) \<rparr>"
  using assms
  by (auto simp add: server_fixed_post_def modules_load_def case_prod_beta saveConversation_def
      split: sum.splits)

text \<open>
  C1 holds for routes/chat.js (above) but not for server-fixed.ts, which lacks the check
  for an empty retrieval that routes/chat.js has: it sends the empty context to the
  chat-completion API, asking for the escalation sentence only through its system prompt,
  and answers with whatever text comes back. Here the retrieval is empty, the completion
  returns another sentence, and that sentence is the answer.
\<close>

theorem server_fixed_empty_retrieval_not_escalated:
  "snd (retrieveRelevantDocs (demo_services []) hello 5) = Inr []
   \<and> snd (server_fixed_post (demo_services []) configured None hello session1) =
       \<lparr> status = 200,
         body = ChatReply (js ''Our plates are dishwasher safe.'') [] (DocsCount 0) \<rparr>
   \<and> js ''Our plates are dishwasher safe.'' \<noteq> escalation"
proof -
  have "js ''Our plates are dishwasher safe.'' \<noteq> escalation"
    by (simp add: js_def escalation_def)
  then show ?thesis
    by (simp add: server_fixed_post_def retrieve_demo chatCompletion_def saveConversation_def
        demo_fields)
qed

theorem server_fixed_empty_retrieval_not_escalated_witness:
  "status (snd (server_fixed_post (demo_services []) configured None hello session1)) = 200
   \<and> body (snd (server_fixed_post (demo_services []) configured None hello session1)) =
       ChatReply (js ''Our plates are dishwasher safe.'') [] (DocsCount 0)"
  using server_fixed_empty_retrieval_not_escalated by simp

subsection \<open>A failed persistence write\<close>

text \<open>
  In routes/chat.js the response does not depend on how the conversations table answers,
  and a failed write leaves \<open>Error saving conversation:\<close> in the log.
\<close>

lemma chat_route_response_ignores_store:
  "snd (chat_route_post (env \<lparr> conversations_insert := store \<rparr>) prompt_file message sessionId) =
   snd (chat_route_post env prompt_file message sessionId)"
proof -
  have "retrieveRelevantDocs (env \<lparr> conversations_insert := store \<rparr>) message 5 =
        retrieveRelevantDocs env message 5"
    by (simp add: retrieveRelevantDocs_def getEmbedding_def
        split: http_outcome.splits rpc_outcome.splits)
  moreover have "chatCompletion (env \<lparr> conversations_insert := store \<rparr>) p ms =
        chatCompletion env p ms" for p ms
    by (simp add: chatCompletion_def)
  moreover have "interpolate (env \<lparr> conversations_insert := store \<rparr>) message =
        interpolate env message"
    by (simp add: interpolate_def split: jsval.splits)
  ultimately show ?thesis
    by (simp add: chat_route_post_def case_prod_beta split: sum.splits)
qed

lemma chat_route_logs_failed_write:
  assumes "truthy message" "is_string message" "truthy sessionId" "is_string sessionId"
    and "snd (retrieveRelevantDocs env message 5) = Inr docs" "docs \<noteq> []"
    and "snd (chatCompletion env (route_systemPrompt prompt_file)
               [ChatMessage (js ''user'')
                  (user_prompt (buildContextText docs) (interpolate env message))]) = Inr answer"
    and "conversations_insert env
           (RouteConversation sessionId message answer (map citation docs)) \<noteq> InsertOk"
  shows "snd (chat_route_post env prompt_file message sessionId) =
           \<lparr> status = 200,
             body = ChatReply answer (map citation docs) (DocsCount (length docs)) \<rparr>"
    and "ConsoleError (js ''Error saving conversation:'')
           \<in> set (fst (chat_route_post env prompt_file message sessionId))"
  using assms
  by (simp_all add: chat_route_post_def case_prod_beta saveConversation_def
      split: sum.splits insert_outcome.splits)

text \<open>The handler of simple-chat.ts ignores the result of the insert as well.\<close>

lemma simple_chat_response_ignores_store:
  "map_option snd
     (simple_chat_post (env \<lparr> conversations_insert := store \<rparr>) penv prompt_file message
        sessionId) =
   map_option snd (simple_chat_post env penv prompt_file message sessionId)"
proof -
  have "simple_getEmbedding (env \<lparr> conversations_insert := store \<rparr>) message =
        simple_getEmbedding env message"
    by (simp add: simple_getEmbedding_def)
  moreover have "simple_chatCompletion (env \<lparr> conversations_insert := store \<rparr>) p ms =
        simple_chatCompletion env p ms" for p ms
    by (simp add: simple_chatCompletion_def)
  moreover have "interpolate (env \<lparr> conversations_insert := store \<rparr>) message =
        interpolate env message"
    by (simp add: interpolate_def split: jsval.splits)
  ultimately show ?thesis
    by (simp add: simple_chat_post_def case_prod_beta
        split: sum.splits rpc_outcome.splits option.splits)
qed

text \<open>
  C5 holds for routes/chat.js and simple-chat.ts but not for server-fixed.ts, which awaits
  \<open>saveConversation\<close> outside any \<open>try\<close>: with one retrieved document and a successful
  generation, a failed write turns the 200 response into the generic 500.
\<close>

theorem server_fixed_failed_write_is_500:
  "snd (server_fixed_post (demo_services [plate_doc]) configured None hello session1) =
     \<lparr> status = 200,
       body = ChatReply (js ''Our plates are dishwasher safe.'')
                [SnippetCitation (js ''p1'') (js ''description'') (js ''Plate...'') 0.9]
                (DocsCount 1) \<rparr>
   \<and> snd (server_fixed_post (store_down [plate_doc]) configured None hello session1) =
     \<lparr> status = 500,
       body = ErrorReply (js ''Internal server error'')
                (Some (js ''Failed to process chat request'')) \<rparr>"
proof -
  have "retrieveRelevantDocs (store_down [plate_doc]) hello 5 =
          ([EmbeddingCall hello, VectorSearchCall [0.1, 0.2] 5], Inr [plate_doc])"
    by (simp add: retrieveRelevantDocs_def getEmbedding_def store_down_def demo_fields)
  moreover have "snippet_citation plate_doc =
          SnippetCitation (js ''p1'') (js ''description'') (js ''Plate...'') 0.9"
    by (simp add: snippet_citation_def plate_doc_def js_def)
  ultimately show ?thesis
    by (simp add: server_fixed_post_def retrieve_demo chatCompletion_def saveConversation_def
        demo_fields store_down_def internal_error_def)
qed

theorem server_fixed_failed_write_is_500_witness:
  "status (snd (server_fixed_post (demo_services [plate_doc]) configured None hello session1)) = 200
   \<and> status (snd (server_fixed_post (store_down [plate_doc]) configured None hello session1)) = 500"
  using server_fixed_failed_write_is_500 by simp

subsection \<open>A failed dependency\<close>

text \<open>
  C6: when the embedding call, the vector search or the chat completion of a request to
  routes/chat.js fails, the response is 500 with the generic body, the failed call was
  made once and no call follows it.
\<close>

theorem chat_route_dependency_failure:
  assumes "truthy message" "is_string message" "truthy sessionId" "is_string sessionId"
    and "embedding_fails env message \<or> search_fails env message \<or>
         route_completion_fails env prompt_file message"
  shows "snd (chat_route_post env prompt_file message sessionId) =
           \<lparr> status = 500,
             body = ErrorReply (js ''Internal server error'')
                      (Some (js ''Failed to process chat request'')) \<rparr>
     \<and> call_counts (fst (chat_route_post env prompt_file message sessionId)) =
           (if embedding_fails env message then (1, 0, 0, 0)
            else if search_fails env message then (1, 1, 0, 0)
            else (1, 1, 1, 0))"
proof -
  consider (e) "embedding_fails env message"
    | (s) "\<not> embedding_fails env message" "search_fails env message"
    | (c) "\<not> embedding_fails env message" "\<not> search_fails env message"
          "route_completion_fails env prompt_file message"
    using assms(5) by blast
  then show ?thesis
  proof cases
    case e
    with assms(1-4) show ?thesis
      by (auto simp add: chat_route_post_def retrieveRelevantDocs_def getEmbedding_def
          embedding_fails_def internal_error_def call_counts_def split: http_outcome.splits)
  next
    case s
    with assms(1-4) show ?thesis
      by (auto simp add: chat_route_post_def retrieveRelevantDocs_def getEmbedding_def
          embedding_fails_def search_fails_def internal_error_def call_counts_def
          split: http_outcome.splits rpc_outcome.splits)
  next
    case c
    with assms(1-4) show ?thesis
      by (auto simp add: chat_route_post_def retrieveRelevantDocs_def getEmbedding_def
          chatCompletion_def embedding_fails_def search_fails_def route_completion_fails_def
          completion_fails_def internal_error_def call_counts_def
          split: http_outcome.splits rpc_outcome.splits option.splits)
  qed
qed

theorem chat_route_dependency_failure_witness:
  "embedding_fails (embeddings_down []) hello
   \<and> chat_route_post (embeddings_down []) None hello session1 =
       ([EmbeddingCall hello, ConsoleError (js ''Error getting embedding:''),
         ConsoleError (js ''Error retrieving relevant docs:''), ConsoleError (js ''Chat error:'')],
        \<lparr> status = 500,
          body = ErrorReply (js ''Internal server error'')
                   (Some (js ''Failed to process chat request'')) \<rparr>)"
proof -
  have fails: "embedding_fails (embeddings_down []) hello"
    by (simp add: embedding_fails_def embeddings_down_def)
  have "fst (chat_route_post (embeddings_down []) None hello session1) =
          [EmbeddingCall hello, ConsoleError (js ''Error getting embedding:''),
           ConsoleError (js ''Error retrieving relevant docs:''), ConsoleError (js ''Chat error:'')]"
    by (simp add: chat_route_post_def retrieveRelevantDocs_def getEmbedding_def
        embeddings_down_def)
  with fails chat_route_dependency_failure [of hello session1 "embeddings_down []" None]
  show ?thesis
    by (simp add: prod_eq_iff)
qed

subsection \<open>At most one call of each kind\<close>

text \<open>
  C7: whatever the request and however the services answer, one handling of POST /api/chat
  in routes/chat.js makes at most one embedding call, one vector-search call, one
  chat-completion call and one persistence write.
\<close>

theorem chat_route_calls_at_most_once:
  "calls is_embedding_call (fst (chat_route_post env prompt_file message sessionId)) \<le> 1
   \<and> calls is_search_call (fst (chat_route_post env prompt_file message sessionId)) \<le> 1
   \<and> calls is_completion_call (fst (chat_route_post env prompt_file message sessionId)) \<le> 1
   \<and> calls is_persistence_write (fst (chat_route_post env prompt_file message sessionId)) \<le> 1"
  using retrieveRelevantDocs_calls(2) [of env message 5]
  by (simp add: chat_route_post_def case_prod_beta split: sum.splits)

text \<open>The handlers of server-fixed.ts and simple-chat.ts make no more calls than that.\<close>

lemma server_fixed_calls_at_most_once:
  "calls is_embedding_call (fst (server_fixed_post env penv prompt_file message sessionId)) \<le> 1
   \<and> calls is_search_call (fst (server_fixed_post env penv prompt_file message sessionId)) \<le> 1
   \<and> calls is_completion_call (fst (server_fixed_post env penv prompt_file message sessionId)) \<le> 1
   \<and> calls is_persistence_write (fst (server_fixed_post env penv prompt_file message sessionId)) \<le> 1"
  using retrieveRelevantDocs_calls(2) [of env message 5]
  by (simp add: server_fixed_post_def case_prod_beta split: sum.splits)

lemma simple_calls [simp]:
  "calls is_embedding_call (fst (simple_getEmbedding env q)) = 1"
  "calls is_search_call (fst (simple_getEmbedding env q)) = 0"
  "calls is_completion_call (fst (simple_getEmbedding env q)) = 0"
  "calls is_persistence_write (fst (simple_getEmbedding env q)) = 0"
  "calls is_embedding_call (fst (simple_chatCompletion env p ms)) = 0"
  "calls is_search_call (fst (simple_chatCompletion env p ms)) = 0"
  "calls is_completion_call (fst (simple_chatCompletion env p ms)) = 1"
  "calls is_persistence_write (fst (simple_chatCompletion env p ms)) = 0"
  "calls is_embedding_call (simple_insert env d) = 0"
  "calls is_search_call (simple_insert env d) = 0"
  "calls is_completion_call (simple_insert env d) = 0"
  "calls is_persistence_write (simple_insert env d) = 1"
  by (simp_all add: simple_getEmbedding_def simple_chatCompletion_def simple_insert_def
      split: http_outcome.splits insert_outcome.splits)

lemma simple_chat_calls_at_most_once:
  assumes "simple_chat_post env penv prompt_file message sessionId = Some (trace, resp)"
  shows "calls is_embedding_call trace \<le> 1 \<and> calls is_search_call trace \<le> 1
     \<and> calls is_completion_call trace \<le> 1 \<and> calls is_persistence_write trace \<le> 1"
proof -
  have "trace = fst (the (simple_chat_post env penv prompt_file message sessionId))"
    using assms by simp
  then show ?thesis
    using assms
    by (simp add: simple_chat_post_def case_prod_beta
        split: if_splits sum.splits rpc_outcome.splits option.splits)
qed

theorem chat_route_calls_at_most_once_witness:
  "call_counts (fst (chat_route_post (demo_services [plate_doc]) None hello session1)) =
     (1, 1, 1, 1)
   \<and> calls is_embedding_call
        (fst (chat_route_post (demo_services [plate_doc]) None hello session1)) \<le> 1
   \<and> calls is_search_call
        (fst (chat_route_post (demo_services [plate_doc]) None hello session1)) \<le> 1
   \<and> calls is_completion_call
        (fst (chat_route_post (demo_services [plate_doc]) None hello session1)) \<le> 1
   \<and> calls is_persistence_write
        (fst (chat_route_post (demo_services [plate_doc]) None hello session1)) \<le> 1"
proof -
  have "call_counts (fst (chat_route_post (demo_services [plate_doc]) None hello session1)) =
          (1, 1, 1, 1)"
    by (simp add: chat_route_post_def retrieve_demo chatCompletion_def saveConversation_def
        demo_fields call_counts_def)
  with chat_route_calls_at_most_once [of "demo_services [plate_doc]" None hello session1]
  show ?thesis
    by simp
qed

subsection \<open>Citing what was retrieved\<close>





section \<open>The messages router\<close>

lemma conversationCheck_after_insert:
  "conversationCheck client (db \<lparr> messages := ms \<rparr>) c u = conversationCheck client db c u"
  by (simp add: conversationCheck_def)

lemma conversationCheck_other_client:
  assumes "conversationCheck client db c u = Some x" "\<not> lookup_fails client'"
  shows "conversationCheck client' db c u = Some x"
  using assms by (simp add: conversationCheck_def split: if_splits)

text \<open>What a 201 response of the send endpoint tells about the request and the database.\<close>

lemma send_message_accepted:
  assumes "send_message String client db userId conversationId role_in content_in = (resp, db')"
    and "status resp = 201"
  shows "truthy userId \<and> truthy content_in \<and> role_in \<in> set valid_roles
     \<and> (\<exists>c. conversationCheck client db (filter_text String conversationId)
                (filter_text String userId) = Some c)
     \<and> (\<exists>new_id now.
           db' = db \<lparr> messages := messages db @
                   [\<lparr> msg_id = new_id, conversation_id = filter_text String conversationId,
                      role = role_in, content = content_in, created_at = now \<rparr>] \<rparr>)"
  using assms
  by (auto simp add: send_message_def split: if_splits option.splits insert_answer.splits)

text \<open>
  C3: a message the send endpoint accepted (201) is in the list that
  GET /conversation/:conversationId returns to the same user for the same conversation,
  with role and content as they were sent, whenever the two reads of that GET succeed.
  An accepted message has a role in {user, assistant, system} and a non-empty content.
\<close>

theorem accepted_message_is_listed:
  assumes "send_message String client db userId conversationId role_in content_in = (resp, db')"
    and "status resp = 201"
    and "\<not> lookup_fails client'" "select_error client' = None"
  shows "\<exists>views.
           get_conversation_messages String client' db' userId
               (filter_text String conversationId) =
             \<lparr> status = 200, body = MessageList views \<rparr>
           \<and> (\<exists>v \<in> set views. view_role v = role_in \<and> view_content v = content_in)"
proof -
  let ?cid = "filter_text String conversationId"
  from send_message_accepted [OF assms(1,2)]
  obtain c new_id now where user: "truthy userId"
    and owned: "conversationCheck client db ?cid (filter_text String userId) = Some c"
    and db': "db' = db \<lparr> messages := messages db @
                [\<lparr> msg_id = new_id, conversation_id = ?cid,
                   role = role_in, content = content_in, created_at = now \<rparr>] \<rparr>"
    by blast
  let ?row = "\<lparr> msg_id = new_id, conversation_id = ?cid,
                role = role_in, content = content_in, created_at = now \<rparr>"
  let ?rows = "sort_key created_at (filter (\<lambda>row. conversation_id row = ?cid) (messages db'))"
  have check: "conversationCheck client' db' ?cid (filter_text String userId) = Some c"
    using conversationCheck_other_client [OF owned assms(3)]
    by (simp add: db' conversationCheck_after_insert)
  have "?row \<in> set ?rows"
    by (simp add: db')
  then have "message_view ?row \<in> set (map message_view ?rows)"
    by (simp only: set_map image_eqI)
  moreover have "view_role (message_view ?row) = role_in"
    "view_content (message_view ?row) = content_in"
    by (simp_all add: message_view_def)
  ultimately have "\<exists>v \<in> set (map message_view ?rows).
      view_role v = role_in \<and> view_content v = content_in"
    by blast
  then show ?thesis
    using user check assms(4) by (simp add: get_conversation_messages_def)
qed

theorem accepted_message_is_listed_witness:
  "send_message demo_String demo_client demo_db (JStr (js ''u1'')) (JStr (js ''c1''))
       (JStr (js ''user'')) (JStr (js ''Is this plate dishwasher safe?'')) =
     (\<lparr> status = 201,
        body = MessageSent (js ''Message sent successfully'')
                 (MessageView (js ''m1'') (JStr (js ''user''))
                    (JStr (js ''Is this plate dishwasher safe?'')) 1000) \<rparr>,
      demo_db \<lparr> messages :=
        [\<lparr> msg_id = js ''m1'', conversation_id = js ''c1'', role = JStr (js ''user''),
           content = JStr (js ''Is this plate dishwasher safe?''), created_at = 1000 \<rparr>] \<rparr>)
   \<and> get_conversation_messages demo_String demo_client
       (demo_db \<lparr> messages :=
          [\<lparr> msg_id = js ''m1'', conversation_id = js ''c1'', role = JStr (js ''user''),
             content = JStr (js ''Is this plate dishwasher safe?''), created_at = 1000 \<rparr>] \<rparr>)
       (JStr (js ''u1'')) (js ''c1'') =
     \<lparr> status = 200,
       body = MessageList [MessageView (js ''m1'') (JStr (js ''user''))
                (JStr (js ''Is this plate dishwasher safe?'')) 1000] \<rparr>"
proof -
  let ?db' = "demo_db \<lparr> messages :=
        [\<lparr> msg_id = js ''m1'', conversation_id = js ''c1'', role = JStr (js ''user''),
           content = JStr (js ''Is this plate dishwasher safe?''), created_at = 1000 \<rparr>] \<rparr>"
  let ?resp = "\<lparr> status = 201,
        body = MessageSent (js ''Message sent successfully'')
                 (MessageView (js ''m1'') (JStr (js ''user''))
                    (JStr (js ''Is this plate dishwasher safe?'')) 1000) \<rparr>"
  have sent: "send_message demo_String demo_client demo_db (JStr (js ''u1'')) (JStr (js ''c1''))
       (JStr (js ''user'')) (JStr (js ''Is this plate dishwasher safe?'')) = (?resp, ?db')"
    by (simp add: send_message_def valid_roles_def conversationCheck_def filter_text_def
        demo_db_def demo_client_def js_def)
  have "status ?resp = 201" "\<not> lookup_fails demo_client" "select_error demo_client = None"
    by (simp_all add: demo_client_def)
  from accepted_message_is_listed [OF sent this]
  obtain views where
    "get_conversation_messages demo_String demo_client ?db' (JStr (js ''u1''))
       (filter_text demo_String (JStr (js ''c1''))) = \<lparr> status = 200, body = MessageList views \<rparr>"
    by blast
  moreover have "get_conversation_messages demo_String demo_client ?db' (JStr (js ''u1''))
       (js ''c1'') =
     \<lparr> status = 200,
       body = MessageList [MessageView (js ''m1'') (JStr (js ''user''))
                (JStr (js ''Is this plate dishwasher safe?'')) 1000] \<rparr>"
    by (simp add: get_conversation_messages_def conversationCheck_def filter_text_def
        demo_db_def demo_client_def message_view_def js_def)
  ultimately show ?thesis
    using sent by simp
qed

text \<open>
  When a read of that GET fails instead, the answer is an error: 404 for the ownership
  lookup, 500 for the select.
\<close>

lemma accepted_message_listing_status:
  assumes "send_message String client db userId conversationId role_in content_in = (resp, db')"
    and "status resp = 201"
  shows "status (get_conversation_messages String client' db' userId
                   (filter_text String conversationId)) =
           (if lookup_fails client' then 404
            else if select_error client' \<noteq> None then 500 else 200)"
proof -
  from send_message_accepted [OF assms]
  obtain c new_id now where user: "truthy userId"
    and owned: "conversationCheck client db (filter_text String conversationId)
                  (filter_text String userId) = Some c"
    and db': "db' = db \<lparr> messages := messages db @
                [\<lparr> msg_id = new_id, conversation_id = filter_text String conversationId,
                   role = role_in, content = content_in, created_at = now \<rparr>] \<rparr>"
    by blast
  show ?thesis
  proof (cases "lookup_fails client'")
    case True
    then show ?thesis
      using user by (simp add: get_conversation_messages_def conversationCheck_def)
  next
    case False
    from conversationCheck_other_client [OF owned False]
    have "conversationCheck client' db' (filter_text String conversationId)
            (filter_text String userId) = Some c"
      by (simp add: db' conversationCheck_after_insert)
    then show ?thesis
      using user False by (auto simp add: get_conversation_messages_def)
  qed
qed

text \<open>
  C4, as stated, fails: the handler checks for an authenticated user before it looks at the
  body, so a request without one is answered 401, not 400, whatever its role and content.
\<close>

theorem send_message_unauthenticated_counterexample:
  "JStr (js ''admin'') \<notin> set valid_roles
   \<and> send_message demo_String demo_client demo_db JUndefined (JStr (js ''c1''))
        (JStr (js ''admin'')) (JStr []) =
       (\<lparr> status = 401, body = MessagesError (js ''Unauthorized'') \<rparr>, demo_db)"
  by (simp add: send_message_def valid_roles_def js_def)

text \<open>
  C4, amended: a POST whose body has a role outside {user, assistant, system} or an empty
  (falsy) content is answered 400 when the request carries an authenticated user and 401
  when it does not; in both cases nothing is inserted: the database is unchanged.
\<close>

theorem send_message_rejects_invalid:
  assumes "role_in \<notin> set valid_roles \<or> \<not> truthy content_in"
  shows "status (fst (send_message String client db userId conversationId role_in content_in)) =
           (if truthy userId then 400 else 401)
     \<and> snd (send_message String client db userId conversationId role_in content_in) = db"
  using assms by (auto simp add: send_message_def)

theorem send_message_rejects_invalid_witness:
  "send_message demo_String demo_client demo_db (JStr (js ''u1'')) (JStr (js ''c1''))
       (JStr (js ''admin'')) (JStr (js ''hi'')) =
     (\<lparr> status = 400,
        body = MessagesError (js ''Invalid role. Must be user, assistant, or system'') \<rparr>,
      demo_db)
   \<and> send_message demo_String demo_client demo_db (JStr (js ''u1'')) (JStr (js ''c1''))
       (JStr (js ''user'')) (JStr []) =
     (\<lparr> status = 400,
        body = MessagesError (js ''Conversation ID, role, and content are required'') \<rparr>,
      demo_db)"
proof -
  have "JStr (js ''admin'') \<notin> set valid_roles"
    by (simp add: valid_roles_def js_def)
  from send_message_rejects_invalid [of "JStr (js ''admin'')" "JStr (js ''hi'')" demo_String
      demo_client demo_db "JStr (js ''u1'')" "JStr (js ''c1'')"] this
    send_message_rejects_invalid [of "JStr (js ''user'')" "JStr []" demo_String
      demo_client demo_db "JStr (js ''u1'')" "JStr (js ''c1'')"]
  show ?thesis
    by (simp add: send_message_def valid_roles_def js_def)
qed

section \<open>Product search\<close>

lemma map_of_map_set: "map_of (map_set m k v) = (map_of m)(k \<mapsto> v)"
  by (induction m) (auto simp add: fun_eq_iff)

lemma keys_map_set:
  "map fst (map_set m k v) = (if k \<in> set (map fst m) then map fst m else map fst m @ [k])"
  by (induction m) force+

lemma distinct_map_set: "distinct (map fst m) \<Longrightarrow> distinct (map fst (map_set m k v))"
  by (simp add: keys_map_set)

lemma group_step_map_of:
  "map_of (group_step m doc) =
     (map_of m)(product_id doc \<mapsto>
        (let product = (case map_of m (product_id doc) of
                          None \<Rightarrow> \<lparr> match_product_id = product_id doc,
                                     max_similarity = similarity doc, relevant_snippets = [] \<rparr>
                        | Some p \<Rightarrow> p)
         in product \<lparr> relevant_snippets := relevant_snippets product @ [snippet_of doc],
                      max_similarity := max (max_similarity product) (similarity doc) \<rparr>))"
  by (auto simp add: group_step_def map_has_def map_get_def map_of_map_set Let_def snippet_of_def
      max_def fun_eq_iff)

lemma group_step_keys:
  "map fst (group_step m doc) =
     (if product_id doc \<in> set (map fst m) then map fst m else map fst m @ [product_id doc])"
  by (auto simp add: group_step_def map_has_def map_get_def map_of_map_set keys_map_set Let_def
      map_of_eq_None_iff split: option.splits)

lemma group_products_snoc: "group_products (docs @ [doc]) = group_step (group_products docs) doc"
  by (simp add: group_products_def)

lemma group_products_keys:
  "distinct (map fst (group_products docs)) \<and>
   set (map fst (group_products docs)) = product_id ` set docs"
proof (induction docs rule: rev_induct)
  case Nil
  show ?case by (simp add: group_products_def)
next
  case (snoc doc docs)
  then show ?case
    by (auto simp add: group_products_snoc group_step_keys)
qed

lemma group_products_map_of:
  "map_of (group_products docs) pid =
     (if pid \<in> product_id ` set docs then Some (grouped docs pid) else None)"
proof (induction docs rule: rev_induct)
  case Nil
  show ?case by (simp add: group_products_def)
next
  case (snoc doc docs)
  show ?case
  proof (cases "pid = product_id doc")
    case False
    then show ?thesis
      using snoc by (auto simp add: group_products_snoc group_step_map_of grouped_def docs_of_def)
  next
    case True
    show ?thesis
    proof (cases "pid \<in> product_id ` set docs")
      case False
      then have "docs_of docs pid = []"
        by (auto simp add: docs_of_def filter_empty_conv)
      then show ?thesis
        using snoc True False
        by (simp add: group_products_snoc group_step_map_of grouped_def docs_of_def)
    next
      case seen: True
      then have ne: "set (map similarity (docs_of docs pid)) \<noteq> {}"
        by (auto simp add: docs_of_def filter_empty_conv)
      have "Max (insert (similarity doc) (set (map similarity (docs_of docs pid)))) =
            max (similarity doc) (Max (set (map similarity (docs_of docs pid))))"
        using ne by (intro Max_insert) simp_all
      then show ?thesis
        using snoc True seen
        by (simp add: group_products_snoc group_step_map_of grouped_def docs_of_def max.commute)
    qed
  qed
qed

lemma group_products_entries:
  assumes "(pid, p) \<in> set (group_products docs)"
  shows "pid \<in> product_id ` set docs \<and> p = grouped docs pid"
proof -
  have "map_of (group_products docs) pid = Some p"
    using assms group_products_keys [of docs] by (simp add: map_of_is_SomeI)
  then show ?thesis
    by (simp add: group_products_map_of split: if_splits)
qed

lemma map_values_ids:
  "map match_product_id (map_values (group_products docs)) = map fst (group_products docs)"
  unfolding map_values_def map_map
proof (rule map_cong [OF refl])
  fix e assume "e \<in> set (group_products docs)"
  then have "snd e = grouped docs (fst e)"
    using group_products_entries [of "fst e" "snd e" docs] by simp
  then show "(match_product_id \<circ> snd) e = fst e"
    by (simp add: grouped_def)
qed

lemma set_insort_cmp [simp]: "set (insort_cmp cmp x ys) = insert x (set ys)"
  by (induction ys) auto

lemma js_sort_simps [simp]:
  "js_sort cmp [] = []"
  "js_sort cmp (x # xs) = insort_cmp cmp x (js_sort cmp xs)"
  by (simp_all add: js_sort_def)

lemma set_js_sort [simp]: "set (js_sort cmp xs) = set xs"
  by (induction xs) simp_all

lemma distinct_map_insort_cmp:
  "distinct (map f (insort_cmp cmp x ys)) \<longleftrightarrow> f x \<notin> f ` set ys \<and> distinct (map f ys)"
  by (induction ys) auto

lemma distinct_map_js_sort: "distinct (map f (js_sort cmp xs)) \<longleftrightarrow> distinct (map f xs)"
  by (induction xs) (simp_all add: distinct_map_insort_cmp)

lemma sorted_insort_cmp:
  fixes key :: "'a \<Rightarrow> real"
  assumes "sorted_wrt (\<lambda>a b. key b \<le> key a) ys"
  shows "sorted_wrt (\<lambda>a b. key b \<le> key a) (insort_cmp (\<lambda>a b. key b - key a) x ys)"
  using assms by (induction ys) auto

lemma sorted_js_sort:
  fixes key :: "'a \<Rightarrow> real"
  shows "sorted_wrt (\<lambda>a b. key b \<le> key a) (js_sort (\<lambda>a b. key b - key a) xs)"
proof (induction xs)
  case Nil
  show ?case by simp
next
  case (Cons x xs)
  then show ?case
    using sorted_insort_cmp [of key "js_sort (\<lambda>a b. key b - key a) xs" x]
    by simp
qed

text \<open>
  C10: when the retrieval returns \<open>docs\<close>, \<open>searchProducts\<close> returns one entry per product
  id of \<open>docs\<close>, no product id twice; each entry holds the snippets of that product's
  documents and, as \<open>max_similarity\<close>, the maximum of their similarities; the entries are
  in non-increasing order of \<open>max_similarity\<close>.
\<close>

theorem searchProducts_groups_and_ranks:
  assumes "snd (retrieveRelevantDocs env (JStr query) topK) = Inr docs"
  shows "\<exists>products.
       snd (searchProducts env query topK) = Inr products
     \<and> distinct (map match_product_id products)
     \<and> set (map match_product_id products) = product_id ` set docs
     \<and> (\<forall>p \<in> set products.
           relevant_snippets p = map snippet_of (docs_of docs (match_product_id p))
         \<and> max_similarity p = Max (set (map similarity (docs_of docs (match_product_id p))))
         \<and> max_similarity p = Max (set (map snippet_similarity (relevant_snippets p))))
     \<and> sorted_wrt (\<lambda>a b. max_similarity b \<le> max_similarity a) products"
proof -
  let ?ps = "map_values (group_products docs)"
  let ?sorted = "js_sort (\<lambda>a b. max_similarity b - max_similarity a) ?ps"
  have ids: "map match_product_id ?ps = map fst (group_products docs)"
    by (rule map_values_ids)
  have "distinct (map match_product_id ?sorted)"
    using group_products_keys [of docs] by (simp add: ids distinct_map_js_sort)
  moreover have "set (map match_product_id ?sorted) = product_id ` set docs"
    using group_products_keys [of docs] ids by (metis set_js_sort set_map)
  moreover have "\<forall>p \<in> set ?sorted.
           relevant_snippets p = map snippet_of (docs_of docs (match_product_id p))
         \<and> max_similarity p = Max (set (map similarity (docs_of docs (match_product_id p))))
         \<and> max_similarity p = Max (set (map snippet_similarity (relevant_snippets p)))"
  proof
    fix p assume "p \<in> set ?sorted"
    then obtain pid where "(pid, p) \<in> set (group_products docs)"
      by (auto simp add: map_values_def)
    from group_products_entries [OF this]
    have p: "p = grouped docs pid"
      by simp
    have "map snippet_similarity (map snippet_of ds) = map similarity ds" for ds
      by (simp add: snippet_of_def)
    then show "relevant_snippets p = map snippet_of (docs_of docs (match_product_id p))
         \<and> max_similarity p = Max (set (map similarity (docs_of docs (match_product_id p))))
         \<and> max_similarity p = Max (set (map snippet_similarity (relevant_snippets p)))"
      by (simp add: p grouped_def)
  qed
  moreover have "sorted_wrt (\<lambda>a b. max_similarity b \<le> max_similarity a) ?sorted"
    by (rule sorted_js_sort)
  moreover have "snd (searchProducts env query topK) = Inr ?sorted"
    using assms by (simp add: searchProducts_def case_prod_beta split: sum.splits)
  ultimately show ?thesis
    by blast
qed

theorem searchProducts_groups_and_ranks_witness:
  "snd (searchProducts (demo_services [plate_doc, faq_doc, spec_doc]) (js ''plates'') 10) =
     Inr [\<lparr> match_product_id = js ''p2'', max_similarity = 0.95,
            relevant_snippets =
              [RelevantSnippet (js ''faq'') (js ''Q: Dishwasher safe?'') 0.8,
               RelevantSnippet (js ''spec'') (js ''Diameter: 27 cm'') 0.95] \<rparr>,
          \<lparr> match_product_id = js ''p1'', max_similarity = 0.9,
            relevant_snippets = [RelevantSnippet (js ''description'') (js ''Plate'') 0.9] \<rparr>]"
proof -
  from searchProducts_groups_and_ranks
    [of "demo_services [plate_doc, faq_doc, spec_doc]" "js ''plates''" 10
        "[plate_doc, faq_doc, spec_doc]"]
  obtain products where
    "snd (searchProducts (demo_services [plate_doc, faq_doc, spec_doc]) (js ''plates'') 10) =
       Inr products"
    by (auto simp add: retrieve_demo)
  moreover have "js ''p1'' \<noteq> js ''p2''"
    by (simp add: js_def)
  ultimately show ?thesis
    by (simp add: searchProducts_def retrieve_demo group_products_def group_step_def
        map_has_def map_get_def map_values_def js_sort_def plate_doc_def faq_doc_def
        spec_doc_def)
qed

section \<open>chunkText\<close>

lemma split_on_not_Nil [simp]: "split_on sep xs \<noteq> []"
  by (induction xs) (auto split: list.splits)

lemma length_split_on: "length (split_on sep xs) = Suc (count_list xs sep)"
  by (induction xs) (auto split: list.splits)

lemma split_on_no_sep: "w \<in> set (split_on sep xs) \<Longrightarrow> sep \<notin> set w"
  by (induction xs arbitrary: w) (auto split: list.splits if_splits)

lemma split_on_append_sep:
  "split_on sep (xs @ sep # ys) = split_on sep xs @ split_on sep ys"
  by (induction xs) (auto split: list.splits)

lemma split_on_word: "sep \<notin> set w \<Longrightarrow> split_on sep w = [w]"
  by (induction w) (auto split: list.splits)

lemma split_on_word_sep:
  "sep \<notin> set w \<Longrightarrow> split_on sep (w @ sep # ys) = w # split_on sep ys"
  by (induction w) (auto split: list.splits)

lemma join_Cons: "join sep (x # xs) = x @ concat (map (\<lambda>y. sep @ y) xs)"
  by (induction sep "x # xs" arbitrary: x xs rule: join.induct) auto

lemma join_around:
  "join sep (pre @ w # post) =
     concat (map (\<lambda>x. x @ sep) pre) @ w @ concat (map (\<lambda>y. sep @ y) post)"
proof (induction pre)
  case Nil
  show ?case by (simp add: join_Cons)
next
  case (Cons p pre)
  have "join sep (p # (pre @ w # post)) = p @ sep @ join sep (pre @ w # post)"
    by (cases "pre @ w # post") simp_all
  with Cons show ?case by simp
qed

lemma count_join:
  assumes "\<forall>w \<in> set ws. sep \<notin> set w" "ws \<noteq> []"
  shows "count_list (join [sep] ws) sep = length ws - 1"
  using assms
proof (induction ws)
  case Nil then show ?case by simp
next
  case (Cons w ws)
  then show ?case
    by (cases ws) (auto simp add: join_Cons count_list_0_iff)
qed

lemma last_dropWhile: "dropWhile P xs \<noteq> [] \<Longrightarrow> last (dropWhile P xs) = last xs"
  by (metis last_appendR takeWhile_dropWhile_id)

lemma dropWhile_around:
  assumes "\<exists>c \<in> set w. \<not> P c"
  shows "\<exists>A' w'. dropWhile P (A @ w @ B) = A' @ w' @ B
           \<and> w' \<in> {w, dropWhile P w} \<and> (\<exists>c \<in> set w'. \<not> P c)
           \<and> (A' = [] \<or> (A' \<noteq> [] \<and> A \<noteq> [] \<and> last A' = last A))"
proof (cases "\<exists>a \<in> set A. \<not> P a")
  case True
  then have "dropWhile P (A @ w @ B) = dropWhile P A @ w @ B"
    by (auto simp add: dropWhile_append1)
  moreover have "dropWhile P A \<noteq> []"
    using True by (simp add: dropWhile_eq_Nil_conv)
  moreover have "A \<noteq> []"
    using True by auto
  ultimately show ?thesis
    using assms last_dropWhile [of P A] by blast
next
  case False
  then have "dropWhile P (A @ w @ B) = dropWhile P (w @ B)"
    by (simp add: dropWhile_append2)
  also have "\<dots> = dropWhile P w @ B"
    using assms by (auto simp add: dropWhile_append1)
  finally have eq: "dropWhile P (A @ w @ B) = [] @ dropWhile P w @ B"
    by simp
  have "dropWhile P w \<noteq> []"
    using assms by (simp add: dropWhile_eq_Nil_conv)
  then have "\<not> P (hd (dropWhile P w))" "hd (dropWhile P w) \<in> set (dropWhile P w)"
    by (simp_all add: hd_dropWhile)
  then show ?thesis
    using eq by blast
qed

lemma trim_around:
  assumes "\<exists>c \<in> set w. \<not> is_whitespace c"
  shows "\<exists>A' w' B'. trim (A @ w @ B) = A' @ w' @ B' \<and> stripped_of w' w \<and> w' \<noteq> []
           \<and> (A' = [] \<or> (A' \<noteq> [] \<and> A \<noteq> [] \<and> last A' = last A))
           \<and> (B' = [] \<or> (B' \<noteq> [] \<and> B \<noteq> [] \<and> hd B' = hd B))"
proof -
  obtain A' w1 where
    front: "dropWhile is_whitespace (A @ w @ B) = A' @ w1 @ B"
    and w1: "w1 \<in> {w, dropWhile is_whitespace w}" "\<exists>c \<in> set w1. \<not> is_whitespace c"
    and A': "A' = [] \<or> (A' \<noteq> [] \<and> A \<noteq> [] \<and> last A' = last A)"
    using dropWhile_around [OF assms, of A B] by blast
  have "\<exists>c \<in> set (rev w1). \<not> is_whitespace c"
    using w1(2) by simp
  from dropWhile_around [OF this, of "rev B" "rev A'"]
  obtain Br w2 where
    rear: "dropWhile is_whitespace (rev B @ rev w1 @ rev A') = Br @ w2 @ rev A'"
    and w2: "w2 \<in> {rev w1, dropWhile is_whitespace (rev w1)}" "\<exists>c \<in> set w2. \<not> is_whitespace c"
    and Br: "Br = [] \<or> (Br \<noteq> [] \<and> rev B \<noteq> [] \<and> last Br = last (rev B))"
    by blast
  have "trim (A @ w @ B) = A' @ rev w2 @ rev Br"
    by (simp add: trim_def front rear)
  moreover have "stripped_of (rev w2) w"
    using w1(1) w2(1) by (auto simp add: stripped_of_def trim_def)
  moreover have "rev w2 \<noteq> []"
    using w2(2) by auto
  moreover have "rev Br = [] \<or> (rev Br \<noteq> [] \<and> B \<noteq> [] \<and> hd (rev Br) = hd B)"
    using Br by (auto simp add: hd_rev last_rev)
  ultimately show ?thesis using A' by blast
qed

lemma stripped_of_subset: "stripped_of w' w \<Longrightarrow> set w' \<subseteq> set w"
proof -
  have sub: "set (dropWhile is_whitespace xs) \<subseteq> set xs" for xs
    by (auto dest: set_dropWhileD)
  have "set (rev (dropWhile is_whitespace (rev xs))) \<subseteq> set xs" for xs
    using sub [of "rev xs"] by simp
  from this [of w] this [of "dropWhile is_whitespace w"] sub [of w]
  show "stripped_of w' w \<Longrightarrow> set w' \<subseteq> set w"
    unfolding stripped_of_def trim_def by blast
qed

lemma word_in_split:
  assumes "sep \<notin> set w"
    and "A = [] \<or> (A \<noteq> [] \<and> last A = sep)"
    and "B = [] \<or> (B \<noteq> [] \<and> hd B = sep)"
  shows "w \<in> set (split_on sep (A @ w @ B))"
proof -
  have tail: "w \<in> set (split_on sep (w @ B))"
  proof (cases B)
    case Nil
    then show ?thesis using assms(1) by (simp add: split_on_word)
  next
    case (Cons b B')
    with assms(3) have "B = sep # B'" by simp
    then show ?thesis using assms(1) by (simp add: split_on_word_sep)
  qed
  show ?thesis
  proof (cases "A = []")
    case True
    then show ?thesis using tail by simp
  next
    case False
    with assms(2) have "A = butlast A @ [sep]"
      by (metis append_butlast_last_id)
    then have "A @ w @ B = butlast A @ sep # (w @ B)"
      by (metis append.assoc append_Cons append_Nil)
    then have "split_on sep (A @ w @ B) = split_on sep (butlast A) @ split_on sep (w @ B)"
      by (metis split_on_append_sep)
    then show ?thesis
      using tail by simp
  qed
qed

lemma concat_sep_last:
  "concat (map (\<lambda>x. x @ [sep]) pre) = [] \<or>
   (concat (map (\<lambda>x. x @ [sep]) pre) \<noteq> [] \<and> last (concat (map (\<lambda>x. x @ [sep]) pre)) = sep)"
  by (induction pre rule: rev_induct) auto

lemma concat_sep_hd:
  "concat (map (\<lambda>y. [sep] @ y) post) = [] \<or>
   (concat (map (\<lambda>y. [sep] @ y) post) \<noteq> [] \<and> hd (concat (map (\<lambda>y. [sep] @ y) post)) = sep)"
  by (cases post) auto

text \<open>A word with a non-whitespace character survives in the trimmed join of any window around it.\<close>

lemma window_keeps_word:
  assumes "space \<notin> set w" "\<exists>c \<in> set w. \<not> is_whitespace c"
  shows "trim (join [space] (pre @ w # post)) \<noteq> [] \<and>
         (\<exists>w' \<in> set (split_on space (trim (join [space] (pre @ w # post)))). stripped_of w' w)"
proof -
  let ?A = "concat (map (\<lambda>x. x @ [space]) pre)"
  let ?B = "concat (map (\<lambda>y. [space] @ y) post)"
  obtain A' w' B' where
    eq: "trim (?A @ w @ ?B) = A' @ w' @ B'" and st: "stripped_of w' w" and ne: "w' \<noteq> []"
    and A': "A' = [] \<or> (A' \<noteq> [] \<and> ?A \<noteq> [] \<and> last A' = last ?A)"
    and B': "B' = [] \<or> (B' \<noteq> [] \<and> ?B \<noteq> [] \<and> hd B' = hd ?B)"
    using trim_around [OF assms(2), of ?A ?B] by blast
  have "space \<notin> set w'"
    using assms(1) stripped_of_subset [OF st] by auto
  moreover have "A' = [] \<or> (A' \<noteq> [] \<and> last A' = space)"
    using A' concat_sep_last [of space pre] by auto
  moreover have "B' = [] \<or> (B' \<noteq> [] \<and> hd B' = space)"
    using B' concat_sep_hd [of space post] by auto
  ultimately have "w' \<in> set (split_on space (A' @ w' @ B'))"
    by (rule word_in_split)
  then show ?thesis
    using st eq ne by (auto simp add: join_around)
qed

lemma slice_take_drop:
  assumes "0 \<le> i" "i < int (length xs)" "0 < n"
  shows "slice_js xs i (i + n) = take (nat n) (drop (nat i) xs)"
proof (cases "i + n \<le> int (length xs)")
  case True
  then have "nat (i + n - i) = nat n" by simp
  with True assms show ?thesis
    by (simp add: slice_js_def Let_def min_def)
next
  case False
  then have "nat (int (length xs) - i) = length (drop (nat i) xs)" "length (drop (nat i) xs) \<le> nat n"
    using assms by auto
  with False assms show ?thesis
    by (simp add: slice_js_def Let_def min_def)
qed

lemma count_list_dropWhile: "count_list (dropWhile P xs) x \<le> count_list xs x"
  by (induction xs) auto

lemma count_list_trim: "count_list (trim s) x \<le> count_list s x"
proof -
  have "count_list (trim s) x = count_list (dropWhile is_whitespace (rev (dropWhile is_whitespace s))) x"
    by (simp add: trim_def)
  also have "\<dots> \<le> count_list (rev (dropWhile is_whitespace s)) x"
    by (rule count_list_dropWhile)
  also have "\<dots> = count_list (dropWhile is_whitespace s) x"
    by simp
  also have "\<dots> \<le> count_list s x"
    by (rule count_list_dropWhile)
  finally show ?thesis .
qed

text \<open>A chunk cut from words without spaces has at most as many words as its window.\<close>

lemma window_chunk_words:
  assumes "\<forall>w \<in> set ws. space \<notin> set w" "0 \<le> j" "j < int (length ws)" "0 < chunkSize"
  shows "length (split_on space (trim (join [space] (slice_js ws j (j + chunkSize))))) \<le> nat chunkSize"
proof -
  let ?win = "take (nat chunkSize) (drop (nat j) ws)"
  have win: "slice_js ws j (j + chunkSize) = ?win"
    using assms by (simp add: slice_take_drop)
  have "?win \<noteq> []"
    using assms by auto
  moreover have "\<forall>w \<in> set ?win. space \<notin> set w"
    using assms(1) by (meson in_set_dropD in_set_takeD)
  ultimately have "count_list (join [space] ?win) space = length ?win - 1"
    by (simp add: count_join)
  then have "length (split_on space (trim (join [space] ?win))) \<le> Suc (length ?win - 1)"
    using count_list_trim [of "join [space] ?win" space] by (simp add: length_split_on)
  also have "\<dots> = length ?win"
    using \<open>?win \<noteq> []\<close> by (simp add: Suc_pred' length_greater_0_conv del: length_take take_eq_Nil)
  also have "\<dots> \<le> nat chunkSize"
    by simp
  finally show ?thesis
    by (simp add: win)
qed

lemma chunk_loop_result:
  assumes step: "0 < chunkSize - overlap"
  shows "\<exists>r. chunk_loop ws chunkSize overlap i acc = Some r \<and> set acc \<subseteq> set r
     \<and> (\<forall>c \<in> set r. c \<in> set acc \<or>
           (\<exists>j. i \<le> j \<and> j < int (length ws) \<and>
                c = trim (join [space] (slice_js ws j (j + chunkSize)))))
     \<and> (\<forall>j. i \<le> j \<and> j < int (length ws) \<and> (chunkSize - overlap) dvd (j - i) \<and>
              trim (join [space] (slice_js ws j (j + chunkSize))) \<noteq> []
           \<longrightarrow> trim (join [space] (slice_js ws j (j + chunkSize))) \<in> set r)"
proof (induction "nat (int (length ws) - i)" arbitrary: i acc rule: less_induct)
  case less
  let ?wc = "\<lambda>j. trim (join [space] (slice_js ws j (j + chunkSize)))"
  show ?case
  proof (cases "i < int (length ws)")
    case False
    then have "chunk_loop ws chunkSize overlap i acc = Some acc"
      by (subst chunk_loop.simps) simp
    with False show ?thesis by auto
  next
    case True
    let ?acc = "if length (?wc i) > 0 then acc @ [?wc i] else acc"
    let ?i = "i + (chunkSize - overlap)"
    have unfold: "chunk_loop ws chunkSize overlap i acc = chunk_loop ws chunkSize overlap ?i ?acc"
      using True by (subst chunk_loop.simps) simp
    have "nat (int (length ws) - ?i) < nat (int (length ws) - i)"
      using True step by linarith
    from less [OF this, of ?acc]
    obtain r where r: "chunk_loop ws chunkSize overlap ?i ?acc = Some r" "set ?acc \<subseteq> set r"
      and from_r: "\<forall>c \<in> set r. c \<in> set ?acc \<or> (\<exists>j. ?i \<le> j \<and> j < int (length ws) \<and> c = ?wc j)"
      and to_r: "\<forall>j. ?i \<le> j \<and> j < int (length ws) \<and> (chunkSize - overlap) dvd (j - ?i) \<and> ?wc j \<noteq> []
                  \<longrightarrow> ?wc j \<in> set r"
      by blast
    have "set acc \<subseteq> set r"
      using r(2) by (auto split: if_splits)
    moreover have "\<forall>c \<in> set r. c \<in> set acc \<or> (\<exists>j. i \<le> j \<and> j < int (length ws) \<and> c = ?wc j)"
    proof
      fix c assume "c \<in> set r"
      with from_r consider "c \<in> set ?acc" | j where "?i \<le> j" "j < int (length ws)" "c = ?wc j"
        by blast
      then show "c \<in> set acc \<or> (\<exists>j. i \<le> j \<and> j < int (length ws) \<and> c = ?wc j)"
      proof cases
        case 1
        then show ?thesis using True by (auto split: if_splits)
      next
        case 2
        then show ?thesis using step by (intro disjI2 exI [of _ j]) auto
      qed
    qed
    moreover have "\<forall>j. i \<le> j \<and> j < int (length ws) \<and> (chunkSize - overlap) dvd (j - i) \<and> ?wc j \<noteq> []
                  \<longrightarrow> ?wc j \<in> set r"
    proof (intro allI impI)
      fix j assume j: "i \<le> j \<and> j < int (length ws) \<and> (chunkSize - overlap) dvd (j - i) \<and> ?wc j \<noteq> []"
      show "?wc j \<in> set r"
      proof (cases "j = i")
        case True
        with j r(2) show ?thesis by auto
      next
        case False
        with j have "0 < j - i" by simp
        with j have "chunkSize - overlap \<le> j - i"
          by (simp add: zdvd_imp_le)
        moreover have "(chunkSize - overlap) dvd (j - ?i)"
        proof -
          have "j - ?i = (j - i) - (chunkSize - overlap)" by simp
          then show ?thesis using j by (simp only: dvd_diff dvd_refl)
        qed
        ultimately show ?thesis using to_r j by simp
      qed
    qed
    ultimately show ?thesis
      using r(1) unfold by simp
  qed
qed

text \<open>The window that starts at the last multiple of the step below \<open>k\<close> holds word \<open>k\<close>.\<close>

lemma covering_window:
  assumes "0 \<le> overlap" "overlap < chunkSize" "k < length ws"
  shows "\<exists>j pre post. 0 \<le> j \<and> j < int (length ws) \<and> (chunkSize - overlap) dvd (j - 0)
           \<and> slice_js ws j (j + chunkSize) = pre @ ws ! k # post"
proof -
  let ?d = "nat (chunkSize - overlap)"
  let ?j = "(k div ?d) * ?d"
  let ?win = "take (nat chunkSize) (drop ?j ws)"
  have d: "0 < ?d" "?d \<le> nat chunkSize"
    using assms by auto
  have jk: "?j \<le> k"
    by simp
  have "k - ?j = k mod ?d"
    by (simp add: minus_div_mult_eq_mod)
  then have near: "k - ?j < nat chunkSize"
    using d by (metis less_le_trans mod_less_divisor)
  have "k - ?j < length ws - ?j"
    using assms(3) jk by (rule diff_less_mono)
  with near have len: "k - ?j < length ?win"
    by simp
  have "?j + (k - ?j) = k"
    using jk by (rule le_add_diff_inverse)
  then have "drop ?j ws ! (k - ?j) = ws ! k"
    using assms(3) jk by (metis less_or_eq_imp_le nth_drop order.strict_trans1)
  then have "?win ! (k - ?j) = ws ! k"
    using near by simp
  with id_take_nth_drop [OF len]
  have "?win = take (k - ?j) ?win @ ws ! k # drop (Suc (k - ?j)) ?win"
    by simp
  moreover have "slice_js ws (int ?j) (int ?j + chunkSize) = ?win"
  proof -
    have "0 \<le> int ?j" "int ?j < int (length ws)" "0 < chunkSize"
      using jk assms by linarith+
    then have "slice_js ws (int ?j) (int ?j + chunkSize) =
                 take (nat chunkSize) (drop (nat (int ?j)) ws)"
      by (rule slice_take_drop)
    then show ?thesis by (simp only: nat_int)
  qed
  moreover have "(chunkSize - overlap) dvd (int ?j - 0)"
  proof -
    have "int ?j = int (k div ?d) * (chunkSize - overlap)"
      using assms by simp
    then show ?thesis by simp
  qed
  moreover have "int ?j < int (length ws)"
    using jk assms(3) by linarith
  ultimately show ?thesis
    by (metis of_nat_0_le_iff)
qed

text \<open>A word without whitespace at either end is kept as it is.\<close>

lemma stripped_of_clean:
  assumes "stripped_of w' w" "w \<noteq> []" "\<not> is_whitespace (hd w)" "\<not> is_whitespace (last w)"
  shows "w' = w"
proof -
  have "dropWhile is_whitespace w = w"
    using assms(2,3) by (cases w) simp_all
  moreover have "dropWhile is_whitespace (rev w) = rev w"
    using assms(2,4) by (cases "rev w") (simp_all add: hd_rev [symmetric] del: rev_is_Nil_conv)
  ultimately show ?thesis
    using assms(1) by (auto simp add: stripped_of_def trim_def)
qed

lemma chunkText_result:
  assumes "0 \<le> overlap" "overlap < chunkSize"
  shows "\<exists>chunks. chunkText text chunkSize overlap = Some chunks
     \<and> (\<forall>c \<in> set chunks. length (split_on space c) \<le> nat chunkSize)
     \<and> (\<forall>w \<in> set (split_on space text). (\<exists>u \<in> set w. \<not> is_whitespace u) \<longrightarrow>
           (\<exists>c \<in> set chunks. \<exists>w' \<in> set (split_on space c). stripped_of w' w))"
proof -
  let ?ws = "split_on space text"
  let ?wc = "\<lambda>j. trim (join [space] (slice_js ?ws j (j + chunkSize)))"
  have step: "0 < chunkSize - overlap"
    using assms by simp
  from chunk_loop_result [OF step, of ?ws 0 "[]"]
  obtain r where r: "chunk_loop ?ws chunkSize overlap 0 [] = Some r"
    and from_r: "\<forall>c \<in> set r. \<exists>j. 0 \<le> j \<and> j < int (length ?ws) \<and> c = ?wc j"
    and to_r: "\<forall>j. 0 \<le> j \<and> j < int (length ?ws) \<and> (chunkSize - overlap) dvd (j - 0) \<and> ?wc j \<noteq> []
                 \<longrightarrow> ?wc j \<in> set r"
    by auto
  have spaceless: "\<forall>w \<in> set ?ws. space \<notin> set w"
    by (auto dest: split_on_no_sep)
  have "\<forall>c \<in> set r. length (split_on space c) \<le> nat chunkSize"
  proof
    fix c assume "c \<in> set r"
    with from_r obtain j where "0 \<le> j" "j < int (length ?ws)" "c = ?wc j"
      by blast
    then show "length (split_on space c) \<le> nat chunkSize"
      using window_chunk_words [OF spaceless, of j chunkSize] assms by simp
  qed
  moreover have "\<forall>w \<in> set ?ws. (\<exists>u \<in> set w. \<not> is_whitespace u) \<longrightarrow>
           (\<exists>c \<in> set r. \<exists>w' \<in> set (split_on space c). stripped_of w' w)"
  proof (intro ballI impI)
    fix w assume w: "w \<in> set ?ws" "\<exists>u \<in> set w. \<not> is_whitespace u"
    then obtain k where k: "k < length ?ws" "?ws ! k = w"
      by (auto simp add: in_set_conv_nth)
    from covering_window [OF assms k(1)] k(2)
    obtain j pre post where j: "0 \<le> j" "j < int (length ?ws)" "(chunkSize - overlap) dvd (j - 0)"
      and win: "slice_js ?ws j (j + chunkSize) = pre @ w # post"
      by blast
    have "space \<notin> set w"
      using w(1) spaceless by blast
    from window_keeps_word [OF this w(2), of pre post] win
    have "?wc j \<noteq> []" "\<exists>w' \<in> set (split_on space (?wc j)). stripped_of w' w"
      by simp_all
    with to_r j show "\<exists>c \<in> set r. \<exists>w' \<in> set (split_on space c). stripped_of w' w"
      by blast
  qed
  ultimately show ?thesis
    using r by (simp add: chunkText_def)
qed

lemma split_when_not_Nil [simp]: "split_when P xs \<noteq> []"
  by (induction xs) (auto split: list.splits)

lemma split_when_append:
  "P c \<Longrightarrow> split_when P (xs @ c # ys) = split_when P xs @ split_when P ys"
  by (induction xs) (auto split: list.splits)

lemma tokens_append: "P = is_whitespace \<Longrightarrow> P c \<Longrightarrow> tokens (xs @ c # ys) = tokens xs @ tokens ys"
  by (simp add: tokens_def split_when_append)

lemma tokens_whitespace: "\<forall>c \<in> set s. is_whitespace c \<Longrightarrow> tokens s = []"
  by (induction s) (auto simp add: tokens_def)

lemma tokens_dropWhile: "tokens (dropWhile is_whitespace s) = tokens s"
  by (induction s) (auto simp add: tokens_def)

lemma tokens_append_whitespace:
  "\<forall>c \<in> set t. is_whitespace c \<Longrightarrow> tokens (s @ t) = tokens s"
proof (cases t)
  case Nil
  then show ?thesis by simp
next
  case (Cons c t')
  assume "\<forall>c \<in> set t. is_whitespace c"
  with Cons have "is_whitespace c" "\<forall>c \<in> set t'. is_whitespace c"
    by auto
  then show ?thesis
    using Cons by (simp add: tokens_append tokens_whitespace)
qed

lemma tokens_trim: "tokens (trim s) = tokens s"
proof -
  let ?d = "dropWhile is_whitespace s"
  have "?d = rev (dropWhile is_whitespace (rev ?d)) @ rev (takeWhile is_whitespace (rev ?d))"
    by (metis rev_append rev_rev_ident takeWhile_dropWhile_id)
  moreover have "\<forall>c \<in> set (rev (takeWhile is_whitespace (rev ?d))). is_whitespace c"
    by (auto dest: set_takeWhileD)
  ultimately have "tokens ?d = tokens (rev (dropWhile is_whitespace (rev ?d)))"
    by (metis tokens_append_whitespace)
  then show ?thesis
    by (simp add: trim_def tokens_dropWhile)
qed

lemma is_whitespace_space: "is_whitespace space"
  by (simp add: is_whitespace_def space_def)

lemma tokens_join: "tokens (join [space] ws) = concat (map tokens ws)"
proof (induction ws)
  case Nil
  show ?case by (simp add: tokens_def)
next
  case (Cons x ws)
  show ?case
  proof (cases ws)
    case Nil
    then show ?thesis by simp
  next
    case (Cons y ys)
    then have "join [space] (x # ws) = x @ space # join [space] ws"
      by simp
    then show ?thesis
      using Cons.IH by (simp add: tokens_append is_whitespace_space)
  qed
qed

lemma join_split_on: "join [sep] (split_on sep s) = s"
proof (induction s)
  case Nil
  show ?case by simp
next
  case (Cons c s)
  show ?case
  proof (cases "split_on sep s")
    case Nil
    then show ?thesis by simp
  next
    case (Cons w ws)
    with Cons.IH show ?thesis
      by (cases ws) (auto simp add: join_Cons)
  qed
qed

lemma tokens_words: "tokens s = concat (map tokens (split_on space s))"
  by (metis join_split_on tokens_join)

lemma tokens_nonwhite: "t \<in> set (tokens w) \<Longrightarrow> \<exists>c \<in> set w. \<not> is_whitespace c"
  using tokens_whitespace [of w] by fastforce

text \<open>Every token of the text is a token of a returned chunk.\<close>

lemma chunkText_keeps_tokens:
  assumes "0 \<le> overlap" "overlap < chunkSize" "t \<in> set (tokens s)"
  shows "\<exists>chunks. chunkText s chunkSize overlap = Some chunks
           \<and> (\<exists>c \<in> set chunks. t \<in> set (tokens c))"
proof -
  let ?ws = "split_on space s"
  let ?wc = "\<lambda>j. trim (join [space] (slice_js ?ws j (j + chunkSize)))"
  obtain w where w: "w \<in> set ?ws" "t \<in> set (tokens w)"
    using assms(3) by (subst (asm) tokens_words) auto
  then obtain k where k: "k < length ?ws" "?ws ! k = w"
    by (auto simp add: in_set_conv_nth)
  from covering_window [OF assms(1,2) k(1)] k(2)
  obtain j pre post where j: "0 \<le> j" "j < int (length ?ws)" "(chunkSize - overlap) dvd (j - 0)"
    and win: "slice_js ?ws j (j + chunkSize) = pre @ w # post"
    by blast
  have "space \<notin> set w"
    using w(1) by (auto dest: split_on_no_sep)
  from window_keeps_word [OF this tokens_nonwhite [OF w(2)], of pre post] win
  have ne: "?wc j \<noteq> []"
    by simp
  have "tokens (?wc j) = concat (map tokens (pre @ w # post))"
    by (simp only: tokens_trim tokens_join win)
  then have t: "t \<in> set (tokens (?wc j))"
    using w(2) by simp
  have step: "0 < chunkSize - overlap"
    using assms by simp
  from chunk_loop_result [OF step, of ?ws 0 "[]"]
  obtain r where "chunk_loop ?ws chunkSize overlap 0 [] = Some r"
    and "\<forall>j. 0 \<le> j \<and> j < int (length ?ws) \<and> (chunkSize - overlap) dvd (j - 0) \<and> ?wc j \<noteq> []
           \<longrightarrow> ?wc j \<in> set r"
    by auto
  with j ne t show ?thesis
    unfolding chunkText_def by blast
qed

text \<open>
  C9, as stated, fails, whichever way its words are counted. With the words that
  \<open>split(' ')\<close> gives, coverage fails: \<open>trim\<close> strips the whitespace at the ends of a
  chunk, and with it the line break that ends the word \<open>a\<newline>\<close> of the text
  \<open>a\<newline> b\<close>; with chunks of one word the chunks are \<open>a\<close> and \<open>b\<close>, and the word is a
  word of neither and longer than both. With the words a reader counts, runs of
  non-whitespace, the bound fails: the text \<open>x\<newline>y\<close> is one chunk for chunkSize 1 and
  holds two of them.
\<close>

theorem chunkText_trims_word_counterexample:
  "chunkText (js ''a'' @ newline @ js '' b'') 1 0 = Some [js ''a'', js ''b'']
   \<and> js ''a'' @ newline \<in> set (split_on space (js ''a'' @ newline @ js '' b''))
   \<and> js ''a'' @ newline \<notin> set (split_on space (js ''a''))
   \<and> js ''a'' @ newline \<notin> set (split_on space (js ''b''))
   \<and> length (js ''a'') < length (js ''a'' @ newline)
   \<and> length (js ''b'') < length (js ''a'' @ newline)
   \<and> chunkText (js ''x'' @ newline @ js ''y'') 1 0 = Some [js ''x'' @ newline @ js ''y'']
   \<and> tokens (js ''x'' @ newline @ js ''y'') = [js ''x'', js ''y'']"
  by code_simp

text \<open>
  C9, amended: for every text and all integer parameters with
  \<open>0 \<le> overlap < chunkSize\<close>, \<open>chunkText\<close> returns; every chunk it returns has at most
  \<open>chunkSize\<close> words; and every word of the text that has a character other than
  whitespace is, as it is or with whitespace stripped from its ends, a word of some
  returned chunk. (Words are what \<open>split(' ')\<close> gives.)
\<close>

theorem chunkText_terminates_bounded_covering:
  assumes "0 \<le> overlap" "overlap < chunkSize"
  shows "\<exists>chunks. chunkText text chunkSize overlap = Some chunks
     \<and> (\<forall>c \<in> set chunks. length (split_on space c) \<le> nat chunkSize)
     \<and> (\<forall>w \<in> set (split_on space text). (\<exists>u \<in> set w. \<not> is_whitespace u) \<longrightarrow>
           (\<exists>c \<in> set chunks. \<exists>w' \<in> set (split_on space c). stripped_of w' w))"
  using assms by (rule chunkText_result)

theorem chunkText_terminates_bounded_covering_witness:
  "(0::int) \<le> 1 \<and> (1::int) < 3
   \<and> chunkText (js ''a b c d e'') 3 1 = Some [js ''a b c'', js ''c d e'', js ''e'']
   \<and> map (\<lambda>c. length (split_on space c)) [js ''a b c'', js ''c d e'', js ''e''] = [3, 3, 1]
   \<and> set (split_on space (js ''a b c d e''))
       \<subseteq> set (concat (map (split_on space) [js ''a b c'', js ''c d e'', js ''e'']))"
proof -
  have run: "chunkText (js ''a b c d e'') 3 1 = Some [js ''a b c'', js ''c d e'', js ''e'']"
    by code_simp
  have words: "map (\<lambda>c. length (split_on space c)) [js ''a b c'', js ''c d e'', js ''e''] =
      [3, 3, 1]"
    "set (split_on space (js ''a b c d e''))
       \<subseteq> set (concat (map (split_on space) [js ''a b c'', js ''c d e'', js ''e'']))"
    by code_simp+
  from chunkText_terminates_bounded_covering [of 1 3 "js ''a b c d e''"] run words
  show ?thesis
    by simp
qed

text \<open>A word that neither begins nor ends with whitespace is found unchanged.\<close>

lemma chunkText_keeps_clean_words:
  assumes "0 \<le> overlap" "overlap < chunkSize"
    and "w \<in> set (split_on space text)" "w \<noteq> []"
    and "\<not> is_whitespace (hd w)" "\<not> is_whitespace (last w)"
  shows "\<exists>chunks. chunkText text chunkSize overlap = Some chunks
           \<and> (\<exists>c \<in> set chunks. w \<in> set (split_on space c))"
proof -
  have "\<exists>u \<in> set w. \<not> is_whitespace u"
    using assms(4,5) by (cases w) auto
  with chunkText_result [OF assms(1,2), of "text"] assms(3)
  obtain chunks c w' where "chunkText text chunkSize overlap = Some chunks"
    "c \<in> set chunks" "w' \<in> set (split_on space c)" "stripped_of w' w"
    by blast
  moreover from this have "w' = w"
    using stripped_of_clean assms(4-6) by blast
  ultimately show ?thesis
    by blast
qed

end
